theory Spec2Isabelle
  imports Main
begin

section \<open>JavaScript values\<close>

text \<open>
  The program is dynamically typed and its validation code is made of \<^verbatim>\<open>typeof\<close> tests, so
  states and tasks are modelled as JavaScript values, not as typed records.  A finite number
  is modelled when it is integer valued (every number the program makes itself is a
  \<^verbatim>\<open>Date.now()\<close> result); \<^verbatim>\<open>NaN\<close> and the two infinities are kept because \<^verbatim>\<open>typeof\<close> calls
  them numbers too.  An object is the list of its own properties in enumeration order, with
  distinct keys.  Values are trees: sharing between objects is the subject of the separate
  store model further down.
\<close>

datatype jsnum = Finite int | NaN | PosInf | NegInf

datatype jsval =
    JUndefined
  | JNull
  | JBool bool
  | JNum jsnum
  | JStr string
  | JArr "jsval list"
  | JObj "(string \<times> jsval) list"

datatype error =
    TypeError
  | SyntaxError
  | Error string
  | QuotaExceededError
  | SecurityError
  | UnknownError

fun typeof :: "jsval \<Rightarrow> string" where
  "typeof JUndefined = ''undefined''"
| "typeof JNull = ''object''"
| "typeof (JBool b) = ''boolean''"
| "typeof (JNum n) = ''number''"
| "typeof (JStr s) = ''string''"
| "typeof (JArr xs) = ''object''"
| "typeof (JObj ps) = ''object''"

text \<open>\<^verbatim>\<open>!v\<close> is \<open>\<not> truthy v\<close>.\<close>

fun truthy :: "jsval \<Rightarrow> bool" where
  "truthy JUndefined = False"
| "truthy JNull = False"
| "truthy (JBool b) = b"
| "truthy (JNum (Finite n)) = (n \<noteq> 0)"
| "truthy (JNum NaN) = False"
| "truthy (JNum PosInf) = True"
| "truthy (JNum NegInf) = True"
| "truthy (JStr s) = (s \<noteq> [])"
| "truthy (JArr xs) = True"
| "truthy (JObj ps) = True"

fun isArray :: "jsval \<Rightarrow> bool" where
  "isArray (JArr xs) = True"
| "isArray _ = False"

subsection \<open>Decimal numerals\<close>

definition digit_char :: "nat \<Rightarrow> char" where
  "digit_char d = char_of (48 + d)"

definition is_digit :: "char \<Rightarrow> bool" where
  "is_digit c = (48 \<le> (of_char c :: nat) \<and> (of_char c :: nat) \<le> 57)"

definition digit_val :: "char \<Rightarrow> nat" where
  "digit_val c = of_char c - 48"

function show_nat :: "nat \<Rightarrow> string" where
  "show_nat n = (if n < 10 then [digit_char n] else show_nat (n div 10) @ [digit_char (n mod 10)])"
  by pat_completeness auto
termination
  by (relation "measure (\<lambda>n. n)") auto

declare show_nat.simps [simp del]

text \<open>Number-to-string conversion of an integer-valued number (plain digits below \<open>10^21\<close>).\<close>

definition show_int :: "int \<Rightarrow> string" where
  "show_int i = (if i < 0 then CHR ''-'' # show_nat (nat (- i)) else show_nat (nat i))"

definition digits_val :: "string \<Rightarrow> nat" where
  "digits_val ds = foldl (\<lambda>a c. 10 * a + digit_val c) 0 ds"

subsection \<open>Property access\<close>

fun lookup :: "(string \<times> jsval) list \<Rightarrow> string \<Rightarrow> jsval" where
  "lookup [] k = JUndefined"
| "lookup ((k', v) # ps) k = (if k' = k then v else lookup ps k)"

text \<open>A property key names an array element when it is the canonical numeral of its index.\<close>

definition index_of_key :: "string \<Rightarrow> nat option" where
  "index_of_key k =
     (if k \<noteq> [] \<and> list_all is_digit k \<and> show_nat (digits_val k) = k
      then Some (digits_val k) else None)"

text \<open>
  \<^verbatim>\<open>v.k\<close> for a base that is neither \<^verbatim>\<open>undefined\<close> nor \<^verbatim>\<open>null\<close>.  Inherited properties are
  not modelled: no name the program reads (\<^verbatim>\<open>tasks\<close>, \<^verbatim>\<open>filter\<close>, \<^verbatim>\<open>lastSynced\<close>, \<^verbatim>\<open>id\<close>,
  \<^verbatim>\<open>title\<close>, \<^verbatim>\<open>completed\<close>, \<^verbatim>\<open>createdAt\<close>) is one.
\<close>

fun getprop :: "jsval \<Rightarrow> string \<Rightarrow> jsval" where
  "getprop (JObj ps) k = lookup ps k"
| "getprop (JArr xs) k =
     (if k = ''length'' then JNum (Finite (int (length xs)))
      else case index_of_key k of
             Some i \<Rightarrow> (if i < length xs then xs ! i else JUndefined)
           | None \<Rightarrow> JUndefined)"
| "getprop (JStr s) k =
     (if k = ''length'' then JNum (Finite (int (length s)))
      else case index_of_key k of
             Some i \<Rightarrow> (if i < length s then JStr [s ! i] else JUndefined)
           | None \<Rightarrow> JUndefined)"
| "getprop _ k = JUndefined"

text \<open>\<^verbatim>\<open>v.k\<close> in general: reading a property of \<^verbatim>\<open>undefined\<close> or \<^verbatim>\<open>null\<close> throws.\<close>

fun get :: "jsval \<Rightarrow> string \<Rightarrow> error + jsval" where
  "get JUndefined k = Inl TypeError"
| "get JNull k = Inl TypeError"
| "get v k = Inr (getprop v k)"

text \<open>\<^verbatim>\<open>[...].includes(v)\<close> for an array of string literals: only an equal string is found.\<close>

fun includes_lit :: "string list \<Rightarrow> jsval \<Rightarrow> bool" where
  "includes_lit xs (JStr s) = (s \<in> set xs)"
| "includes_lit xs _ = False"

fun elems :: "jsval \<Rightarrow> jsval list" where
  "elems (JArr xs) = xs"
| "elems _ = []"

subsection \<open>Objects as property lists\<close>

text \<open>
  Defining a property: an existing key keeps its place and takes the new value, a new key
  goes to the end.
\<close>

fun set_prop :: "(string \<times> jsval) list \<Rightarrow> string \<Rightarrow> jsval \<Rightarrow> (string \<times> jsval) list" where
  "set_prop [] k v = [(k, v)]"
| "set_prop ((k', v') # ps) k v = (if k' = k then (k, v) # ps else (k', v') # set_prop ps k v)"

fun indexed :: "nat \<Rightarrow> jsval list \<Rightarrow> (string \<times> jsval) list" where
  "indexed i [] = []"
| "indexed i (x # xs) = (show_nat i, x) # indexed (Suc i) xs"

text \<open>The own enumerable properties copied by an object spread \<^verbatim>\<open>{...v}\<close>.\<close>

fun spread :: "jsval \<Rightarrow> (string \<times> jsval) list" where
  "spread (JObj ps) = ps"
| "spread (JArr xs) = indexed 0 xs"
| "spread (JStr s) = indexed 0 (map (\<lambda>c. JStr [c]) s)"
| "spread _ = []"

text \<open>The elements produced by an array spread \<^verbatim>\<open>[...v]\<close>; a value that is not iterable throws.\<close>

fun iterate :: "jsval \<Rightarrow> error + jsval list" where
  "iterate (JArr xs) = Inr xs"
| "iterate (JStr s) = Inr (map (\<lambda>c. JStr [c]) s)"
| "iterate _ = Inl TypeError"

subsection \<open>Strings\<close>

text \<open>
  White space and line terminators as \<^verbatim>\<open>String.prototype.trim\<close> and the regular expression
  class \<^verbatim>\<open>\s\<close> know them, among the characters below 256.
\<close>

definition is_space :: "char \<Rightarrow> bool" where
  "is_space c = ((of_char c :: nat) \<in> {9, 10, 11, 12, 13, 32, 160})"

definition trim :: "string \<Rightarrow> string" where
  "trim s = rev (dropWhile is_space (rev (dropWhile is_space s)))"

section \<open>Storage service: validation\<close>

definition isValidTask :: "jsval \<Rightarrow> bool" where
  "isValidTask task =
     (if \<not> truthy task \<or> typeof task \<noteq> ''object'' then False
      else if typeof (getprop task ''id'') \<noteq> ''string'' then False
      else if typeof (getprop task ''title'') \<noteq> ''string'' then False
      else if typeof (getprop task ''completed'') \<noteq> ''boolean'' then False
      else if typeof (getprop task ''createdAt'') \<noteq> ''number'' then False
      else True)"

definition isValidState :: "jsval \<Rightarrow> bool" where
  "isValidState st =
     (if \<not> truthy st \<or> typeof st \<noteq> ''object'' then False
      else if \<not> isArray (getprop st ''tasks'') then False
      else if \<not> includes_lit [''all'', ''active'', ''completed''] (getprop st ''filter'') then False
      else if getprop st ''lastSynced'' \<noteq> JNull \<and> typeof (getprop st ''lastSynced'') \<noteq> ''number''
        then False
      else list_all isValidTask (elems (getprop st ''tasks'')))"

section \<open>The platform's JSON codec\<close>

text \<open>
  \<^verbatim>\<open>JSON.stringify\<close> and \<^verbatim>\<open>JSON.parse\<close> belong to the platform, not to the repository.  They are
  modelled on the value type above: texts are character lists, number literals are integer
  literals, and a \<^verbatim>\<open>\uXXXX\<close> escape must denote a character below 256.  A text with a number
  literal that has a fraction or an exponent, or with an escape from 256 on, lies outside
  the model: \<open>JSON_parse\<close> rejects it where the platform does not.
\<close>

definition dquote :: char where
  "dquote = CHR 0x22"

definition backslash :: char where
  "backslash = CHR 0x5C"

definition hex_digit :: "nat \<Rightarrow> char" where
  "hex_digit d = (if d < 10 then char_of (48 + d) else char_of (87 + d))"

definition quote_char :: "char \<Rightarrow> string" where
  "quote_char c =
     (if c = dquote then [backslash, dquote]
      else if c = backslash then [backslash, backslash]
      else if c = CHR 0x08 then [backslash, CHR ''b'']
      else if c = CHR 0x0C then [backslash, CHR ''f'']
      else if c = CHR 0x0A then [backslash, CHR ''n'']
      else if c = CHR 0x0D then [backslash, CHR ''r'']
      else if c = CHR 0x09 then [backslash, CHR ''t'']
      else if (of_char c :: nat) < 32
        then [backslash, CHR ''u'', CHR ''0'', CHR ''0'',
              hex_digit (of_char c div 16), hex_digit (of_char c mod 16)]
      else [c])"

definition quote :: "string \<Rightarrow> string" where
  "quote s = dquote # concat (map quote_char s) @ [dquote]"

fun join :: "string list \<Rightarrow> string" where
  "join [] = []"
| "join [x] = x"
| "join (x # y # ys) = x @ CHR '','' # join (y # ys)"

text \<open>
  Serialisation of a value inside a text.  \<^verbatim>\<open>NaN\<close> and the infinities are written \<^verbatim>\<open>null\<close>; an
  array element \<^verbatim>\<open>undefined\<close> is written \<^verbatim>\<open>null\<close>; a property whose value is \<^verbatim>\<open>undefined\<close> is
  left out.
\<close>

fun ser :: "jsval \<Rightarrow> string" where
  "ser JUndefined = ''null''"
| "ser JNull = ''null''"
| "ser (JBool b) = (if b then ''true'' else ''false'')"
| "ser (JNum (Finite i)) = show_int i"
| "ser (JNum NaN) = ''null''"
| "ser (JNum PosInf) = ''null''"
| "ser (JNum NegInf) = ''null''"
| "ser (JStr s) = quote s"
| "ser (JArr xs) = CHR ''['' # join (map ser xs) @ '']''"
| "ser (JObj ps) =
     CHR ''{'' # join (map (\<lambda>p. quote (fst p) @ CHR '':'' # ser (snd p))
                          (filter (\<lambda>p. snd p \<noteq> JUndefined) ps)) @ ''}''"

text \<open>\<^verbatim>\<open>JSON.stringify(v)\<close>: \<^verbatim>\<open>undefined\<close> has no text.\<close>

definition JSON_stringify :: "jsval \<Rightarrow> string option" where
  "JSON_stringify v = (if v = JUndefined then None else Some (ser v))"

definition is_json_ws :: "char \<Rightarrow> bool" where
  "is_json_ws c = (c = CHR 0x20 \<or> c = CHR 0x09 \<or> c = CHR 0x0A \<or> c = CHR 0x0D)"

definition skip_ws :: "string \<Rightarrow> string" where
  "skip_ws cs = dropWhile is_json_ws cs"

definition hex_val :: "char \<Rightarrow> nat option" where
  "hex_val c =
     (let n = (of_char c :: nat) in
      if 48 \<le> n \<and> n \<le> 57 then Some (n - 48)
      else if 97 \<le> n \<and> n \<le> 102 then Some (n - 87)
      else if 65 \<le> n \<and> n \<le> 70 then Some (n - 55)
      else None)"

definition unescape :: "char \<Rightarrow> char option" where
  "unescape e =
     (if e = dquote then Some dquote
      else if e = backslash then Some backslash
      else if e = CHR ''/'' then Some (CHR ''/'')
      else if e = CHR ''b'' then Some (CHR 0x08)
      else if e = CHR ''f'' then Some (CHR 0x0C)
      else if e = CHR ''n'' then Some (CHR 0x0A)
      else if e = CHR ''r'' then Some (CHR 0x0D)
      else if e = CHR ''t'' then Some (CHR 0x09)
      else None)"

definition hex4 :: "char \<Rightarrow> char \<Rightarrow> char \<Rightarrow> char \<Rightarrow> nat option" where
  "hex4 a b c d =
     (case (hex_val a, hex_val b, hex_val c, hex_val d) of
        (Some x, Some y, Some z, Some u) \<Rightarrow> Some (((x * 16 + y) * 16 + z) * 16 + u)
      | _ \<Rightarrow> None)"

definition cons_fst :: "'a \<Rightarrow> ('a list \<times> 'b) option \<Rightarrow> ('a list \<times> 'b) option" where
  "cons_fst x r = map_option (\<lambda>(xs, rest). (x # xs, rest)) r"

text \<open>The characters of a string literal after its opening quote, and the text after its closing quote.\<close>

fun parse_chars :: "string \<Rightarrow> (string \<times> string) option" where
  "parse_chars [] = None"
| "parse_chars (c # cs) =
     (if c = dquote then Some ([], cs)
      else if c = backslash then
        (case cs of
           [] \<Rightarrow> None
         | e # cs1 \<Rightarrow>
             if e = CHR ''u'' then
               (case cs1 of
                  h1 # h2 # h3 # h4 # cs2 \<Rightarrow>
                    (case hex4 h1 h2 h3 h4 of
                       Some n \<Rightarrow> if n < 256 then cons_fst (char_of n) (parse_chars cs2) else None
                     | None \<Rightarrow> None)
                | _ \<Rightarrow> None)
             else
               (case unescape e of
                  Some ch \<Rightarrow> cons_fst ch (parse_chars cs1)
                | None \<Rightarrow> None))
      else if (of_char c :: nat) < 32 then None
      else cons_fst c (parse_chars cs))"

text \<open>An integer literal: \<^verbatim>\<open>0\<close>, or a digit sequence that does not start with \<^verbatim>\<open>0\<close>.\<close>

definition parse_nat :: "string \<Rightarrow> (nat \<times> string) option" where
  "parse_nat cs =
     (case cs of
        [] \<Rightarrow> None
      | c # r \<Rightarrow>
          if \<not> is_digit c then None
          else if c = CHR ''0'' then Some (0, r)
          else Some (digits_val (takeWhile is_digit cs), dropWhile is_digit cs))"

definition parse_number :: "string \<Rightarrow> (int \<times> string) option" where
  "parse_number cs =
     (case cs of
        [] \<Rightarrow> None
      | c # r \<Rightarrow>
          if c = CHR ''-'' then map_option (\<lambda>(n, rest). (- int n, rest)) (parse_nat r)
          else map_option (\<lambda>(n, rest). (int n, rest)) (parse_nat cs))"

text \<open>
  Recursive descent, with fuel for the nesting: every call is made on a shorter fuel, and
  twice the length of the text is always enough.
\<close>

fun parse_value :: "nat \<Rightarrow> string \<Rightarrow> (jsval \<times> string) option"
  and parse_elems :: "nat \<Rightarrow> string \<Rightarrow> (jsval list \<times> string) option"
  and parse_members ::
    "nat \<Rightarrow> (string \<times> jsval) list \<Rightarrow> string \<Rightarrow> ((string \<times> jsval) list \<times> string) option"
where
  "parse_value 0 cs = None"
| "parse_value (Suc n) cs =
     (case skip_ws cs of
        [] \<Rightarrow> None
      | c # r \<Rightarrow>
          if c = CHR ''n'' then (if take 3 r = ''ull'' then Some (JNull, drop 3 r) else None)
          else if c = CHR ''t'' then (if take 3 r = ''rue'' then Some (JBool True, drop 3 r) else None)
          else if c = CHR ''f'' then (if take 4 r = ''alse'' then Some (JBool False, drop 4 r) else None)
          else if c = dquote then map_option (\<lambda>(s, rest). (JStr s, rest)) (parse_chars r)
          else if c = CHR ''['' then
            (case skip_ws r of
               [] \<Rightarrow> None
             | d # r1 \<Rightarrow>
                 if d = CHR '']'' then Some (JArr [], r1)
                 else map_option (\<lambda>(vs, rest). (JArr vs, rest)) (parse_elems n (d # r1)))
          else if c = CHR ''{'' then
            (case skip_ws r of
               [] \<Rightarrow> None
             | d # r1 \<Rightarrow>
                 if d = CHR ''}'' then Some (JObj [], r1)
                 else map_option (\<lambda>(ps, rest). (JObj ps, rest)) (parse_members n [] (d # r1)))
          else if c = CHR ''-'' \<or> is_digit c then
            map_option (\<lambda>(i, rest). (JNum (Finite i), rest)) (parse_number (c # r))
          else None)"
| "parse_elems 0 cs = None"
| "parse_elems (Suc n) cs =
     (case parse_value n cs of
        None \<Rightarrow> None
      | Some (v, r) \<Rightarrow>
          (case skip_ws r of
             [] \<Rightarrow> None
           | c # r1 \<Rightarrow>
               if c = CHR '','' then cons_fst v (parse_elems n r1)
               else if c = CHR '']'' then Some ([v], r1)
               else None))"
| "parse_members 0 acc cs = None"
| "parse_members (Suc n) acc cs =
     (case skip_ws cs of
        [] \<Rightarrow> None
      | q # r \<Rightarrow>
          if q \<noteq> dquote then None
          else
            (case parse_chars r of
               None \<Rightarrow> None
             | Some (k, r1) \<Rightarrow>
                 (case skip_ws r1 of
                    [] \<Rightarrow> None
                  | c # r2 \<Rightarrow>
                      if c \<noteq> CHR '':'' then None
                      else
                        (case parse_value n r2 of
                           None \<Rightarrow> None
                         | Some (v, r3) \<Rightarrow>
                             (case skip_ws r3 of
                                [] \<Rightarrow> None
                              | d # r4 \<Rightarrow>
                                  if d = CHR '','' then parse_members n (set_prop acc k v) r4
                                  else if d = CHR ''}'' then Some (set_prop acc k v, r4)
                                  else None)))))"

text \<open>\<^verbatim>\<open>JSON.parse(text)\<close>: one value, with nothing but white space after it, or a SyntaxError.\<close>

definition JSON_parse :: "string \<Rightarrow> error + jsval" where
  "JSON_parse txt =
     (case parse_value (2 * length txt + 2) txt of
        None \<Rightarrow> Inl SyntaxError
      | Some (v, rest) \<Rightarrow> if skip_ws rest = [] then Inr v else Inl SyntaxError)"


section \<open>The world the modules run in\<close>

text \<open>
  Everything the two modules read or change: the State module's private variables, the slot
  of \<^verbatim>\<open>localStorage\<close> under the application's key together with the exception (if any) that
  the store currently throws on a read or on a write, and the effects that leave the modules
  (subscriber calls, console diagnostics, dispatched window events) in the order they happen.
  A subscriber is known by a number; \<open>throwing\<close> lists the subscribers whose callback throws.
\<close>

datatype detail = TaskDetail jsval | FilterDetail jsval | ErrorDetail error

datatype event =
    Notified nat jsval
  | ConsoleWarn string
  | ConsoleError string
  | Dispatched string detail

record world =
  state :: jsval
  subscribers :: "nat list"
  throwing :: "nat list"
  slot :: "string option"
  getItem_fault :: "error option"
  setItem_fault :: "error option"
  events :: "event list"

definition emit :: "event \<Rightarrow> world \<Rightarrow> world" where
  "emit e w = w\<lparr>events := events w @ [e]\<rparr>"

section \<open>Storage service\<close>

definition getDefaultState :: jsval where
  "getDefaultState = JObj [(''tasks'', JArr []), (''filter'', JStr ''all''), (''lastSynced'', JNull)]"

definition getItem :: "world \<Rightarrow> error + string option" where
  "getItem w = (case getItem_fault w of Some e \<Rightarrow> Inl e | None \<Rightarrow> Inr (slot w))"

text \<open>\<^verbatim>\<open>localStorage.setItem(STORAGE_KEY, text)\<close>; a text that is \<^verbatim>\<open>undefined\<close> is stored as that word.\<close>

definition setItem :: "string option \<Rightarrow> world \<Rightarrow> error + world" where
  "setItem txt w =
     (case setItem_fault w of
        Some e \<Rightarrow> Inl e
      | None \<Rightarrow> Inr (w\<lparr>slot := Some (case txt of None \<Rightarrow> ''undefined'' | Some t \<Rightarrow> t)\<rparr>))"

definition handleStorageError :: "error \<Rightarrow> world \<Rightarrow> world" where
  "handleStorageError e w =
     (if e = QuotaExceededError then
        emit (Dispatched ''storage:quotaExceeded'' (ErrorDetail e))
          (emit (ConsoleError ''LocalStorage quota exceeded:'') w)
      else if e = SecurityError then
        emit (Dispatched ''storage:securityError'' (ErrorDetail e))
          (emit (ConsoleError ''LocalStorage security error:'') w)
      else
        emit (Dispatched ''storage:error'' (ErrorDetail e))
          (emit (ConsoleError ''Unexpected LocalStorage error:'') w))"

text \<open>
  The body of the \<^verbatim>\<open>try\<close> block of \<^verbatim>\<open>load\<close>.  The parser is a parameter, so that what is
  proved of \<^verbatim>\<open>load\<close> for every parser holds whatever texts the platform's \<^verbatim>\<open>JSON.parse\<close>
  accepts.
\<close>

definition load_try :: "(string \<Rightarrow> error + jsval) \<Rightarrow> world \<Rightarrow> error + (jsval \<times> world)" where
  "load_try parse w =
     (case getItem w of
        Inl e \<Rightarrow> Inl e
      | Inr serialized \<Rightarrow>
          (case serialized of
             None \<Rightarrow> Inr (getDefaultState, w)
           | Some txt \<Rightarrow>
               (case parse txt of
                  Inl e \<Rightarrow> Inl e
                | Inr st \<Rightarrow>
                    if \<not> isValidState st then
                      Inr (getDefaultState,
                           emit (ConsoleWarn ''Invalid state loaded from storage, resetting to default'') w)
                    else Inr (st, w))))"

definition load_with :: "(string \<Rightarrow> error + jsval) \<Rightarrow> world \<Rightarrow> jsval \<times> world" where
  "load_with parse w =
     (case load_try parse w of
        Inr r \<Rightarrow> r
      | Inl e \<Rightarrow> (getDefaultState, emit (ConsoleError ''Failed to load state from LocalStorage:'') w))"

definition load :: "world \<Rightarrow> jsval \<times> world" where
  "load w = load_with JSON_parse w"

text \<open>The body of the \<^verbatim>\<open>try\<close> block of \<^verbatim>\<open>save\<close>.\<close>

definition save_try :: "jsval \<Rightarrow> world \<Rightarrow> error + (bool \<times> world)" where
  "save_try st w =
     (if \<not> isValidState st then Inr (False, emit (ConsoleError ''Attempted to save invalid state'') w)
      else
        (case setItem (JSON_stringify st) w of
           Inl e \<Rightarrow> Inl e
         | Inr w1 \<Rightarrow> Inr (True, w1)))"

definition save :: "jsval \<Rightarrow> world \<Rightarrow> bool \<times> world" where
  "save st w =
     (case save_try st w of
        Inr r \<Rightarrow> r
      | Inl e \<Rightarrow> (False, handleStorageError e w))"

section \<open>Validators\<close>

definition MAX_TITLE_LENGTH :: nat where
  "MAX_TITLE_LENGTH = 100"

definition MIN_TITLE_LENGTH :: nat where
  "MIN_TITLE_LENGTH = 1"

text \<open>The result object \<^verbatim>\<open>{isValid, message}\<close> as a pair.\<close>

definition validateTaskTitle :: "jsval \<Rightarrow> bool \<times> string" where
  "validateTaskTitle title =
     (if title = JUndefined \<or> title = JNull then (False, ''Title is required'')
      else
        (case title of
           JStr s \<Rightarrow>
             (let trimmed = trim s in
              if length trimmed < MIN_TITLE_LENGTH then (False, ''Task cannot be empty'')
              else if length trimmed > MAX_TITLE_LENGTH
                then (False, ''Task title must be 100 characters or less'')
              else if s \<noteq> [] \<and> list_all is_space s
                then (False, ''Task cannot contain only whitespace'')
              else (True, []))
         | _ \<Rightarrow> (False, ''Title must be a string'')))"

definition validateFilter :: "jsval \<Rightarrow> bool" where
  "validateFilter f = includes_lit [''all'', ''active'', ''completed''] f"

section \<open>Utilities\<close>

text \<open>
  \<^verbatim>\<open>generateUniqueId\<close> reads the clock and the random generator: the timestamp and the suffix
  cut from \<^verbatim>\<open>Math.random().toString(36)\<close> are its inputs here.
\<close>

definition generateUniqueId :: "int \<Rightarrow> string \<Rightarrow> string" where
  "generateUniqueId timestamp randomSuffix = ''task-'' @ show_int timestamp @ ''-'' @ randomSuffix"

section \<open>State module\<close>

text \<open>\<^verbatim>\<open>Object.freeze({ ...state })\<close> as a value; that the copy is shallow shows in the store model.\<close>

definition getState :: "world \<Rightarrow> jsval" where
  "getState w = JObj (spread (state w))"

fun notify_each :: "nat list \<Rightarrow> world \<Rightarrow> world" where
  "notify_each [] w = w"
| "notify_each (cb # cbs) w =
     notify_each cbs
       (if cb \<in> set (throwing w)
        then emit (ConsoleError ''Error in state subscriber:'') (emit (Notified cb (getState w)) w)
        else emit (Notified cb (getState w)) w)"

definition notifySubscribers :: "world \<Rightarrow> world" where
  "notifySubscribers w = notify_each (subscribers w) w"

definition persistState :: "world \<Rightarrow> world" where
  "persistState w =
     (case save (state w) w of
        (success, w1) \<Rightarrow>
          if \<not> success then emit (ConsoleWarn ''Failed to persist state to LocalStorage'') w1 else w1)"

definition init :: "world \<Rightarrow> world" where
  "init w = (case load w of (st, w1) \<Rightarrow> notifySubscribers (w1\<lparr>state := st\<rparr>))"

text \<open>The assignment \<^verbatim>\<open>state.lastSynced = Date.now()\<close>.\<close>

definition stamp :: "int \<Rightarrow> world \<Rightarrow> world" where
  "stamp now w = w\<lparr>state := JObj (set_prop (spread (state w)) ''lastSynced'' (JNum (Finite now)))\<rparr>"

definition setState :: "jsval \<Rightarrow> int \<Rightarrow> world \<Rightarrow> world" where
  "setState newState now w =
     persistState (notifySubscribers (stamp now (w\<lparr>state := JObj (spread newState)\<rparr>)))"

definition updateState :: "jsval \<Rightarrow> int \<Rightarrow> world \<Rightarrow> world" where
  "updateState updates now w =
     persistState (notifySubscribers (stamp now
       (w\<lparr>state := JObj (foldl (\<lambda>ps (k, v). set_prop ps k v) (spread (state w)) (spread updates))\<rparr>)))"

text \<open>
  \<^verbatim>\<open>tasks.findIndex(task => task.id === taskId)\<close> for a string \<^verbatim>\<open>taskId\<close>: the index of the
  first match, \<open>None\<close> for \<^verbatim>\<open>-1\<close>; reading \<^verbatim>\<open>id\<close> off an element \<^verbatim>\<open>null\<close> or \<^verbatim>\<open>undefined\<close> throws.
\<close>

fun findIndex :: "jsval list \<Rightarrow> string \<Rightarrow> error + nat option" where
  "findIndex [] taskId = Inr None"
| "findIndex (task # tasks) taskId =
     (case get task ''id'' of
        Inl e \<Rightarrow> Inl e
      | Inr i \<Rightarrow>
          if i = JStr taskId then Inr (Some 0)
          else (case findIndex tasks taskId of
                  Inl e \<Rightarrow> Inl e
                | Inr None \<Rightarrow> Inr None
                | Inr (Some n) \<Rightarrow> Inr (Some (Suc n))))"

text \<open>\<^verbatim>\<open>tasks.filter(keep)\<close> with a callback that may throw.\<close>

fun filter_tasks :: "('a \<Rightarrow> error + bool) \<Rightarrow> 'a list \<Rightarrow> error + 'a list" where
  "filter_tasks keep [] = Inr []"
| "filter_tasks keep (task # tasks) =
     (case keep task of
        Inl e \<Rightarrow> Inl e
      | Inr b \<Rightarrow>
          (case filter_tasks keep tasks of
             Inl e \<Rightarrow> Inl e
           | Inr rest \<Rightarrow> Inr (if b then task # rest else rest)))"

text \<open>The array behind \<^verbatim>\<open>state.tasks\<close> when a method of \<^verbatim>\<open>Array.prototype\<close> is called on it.\<close>

definition tasks_array :: "jsval \<Rightarrow> error + jsval list" where
  "tasks_array st =
     (case get st ''tasks'' of
        Inl e \<Rightarrow> Inl e
      | Inr (JArr xs) \<Rightarrow> Inr xs
      | Inr _ \<Rightarrow> Inl TypeError)"

definition getFilteredTasks :: "world \<Rightarrow> error + jsval" where
  "getFilteredTasks w =
     (case get (state w) ''tasks'' of
        Inl e \<Rightarrow> Inl e
      | Inr tasks \<Rightarrow>
          (let flt = getprop (state w) ''filter'' in
           if flt = JStr ''active'' then
             (case tasks_array (state w) of
                Inl e \<Rightarrow> Inl e
              | Inr xs \<Rightarrow>
                  map_sum id JArr
                    (filter_tasks (\<lambda>task. map_sum id (\<lambda>c. \<not> truthy c) (get task ''completed'')) xs))
           else if flt = JStr ''completed'' then
             (case tasks_array (state w) of
                Inl e \<Rightarrow> Inl e
              | Inr xs \<Rightarrow>
                  map_sum id JArr
                    (filter_tasks (\<lambda>task. map_sum id truthy (get task ''completed'')) xs))
           else Inr tasks))"

text \<open>
  A mutating operation returns what the call gives back (the thrown error or the returned
  value) and the world it leaves behind.
\<close>

definition addTask ::
  "jsval \<Rightarrow> int \<Rightarrow> string \<Rightarrow> int \<Rightarrow> int \<Rightarrow> world \<Rightarrow> (error + jsval) \<times> world" where
  "addTask title idTime randomSuffix createdTime syncTime w =
     (case validateTaskTitle title of
        (isValid, message) \<Rightarrow>
          if \<not> isValid then (Inl (Error message), w)
          else
            (let newTask = JObj [(''id'', JStr (generateUniqueId idTime randomSuffix)),
                                 (''title'', JStr (trim (case title of JStr s \<Rightarrow> s | _ \<Rightarrow> []))),
                                 (''completed'', JBool False),
                                 (''createdAt'', JNum (Finite createdTime))]
             in case get (state w) ''tasks'' of
                  Inl e \<Rightarrow> (Inl e, w)
                | Inr tasks \<Rightarrow>
                    (case iterate tasks of
                       Inl e \<Rightarrow> (Inl e, w)
                     | Inr xs \<Rightarrow>
                         (let w1 = w\<lparr>state := JObj (set_prop (spread (state w)) ''tasks''
                                                      (JArr (xs @ [newTask])))\<rparr>;
                              w2 = persistState (notifySubscribers (stamp syncTime w1))
                          in (Inr newTask,
                              emit (Dispatched ''task:created'' (TaskDetail newTask)) w2)))))"

definition toggleTaskCompleted :: "string \<Rightarrow> int \<Rightarrow> world \<Rightarrow> (error + jsval) \<times> world" where
  "toggleTaskCompleted taskId now w =
     (case tasks_array (state w) of
        Inl e \<Rightarrow> (Inl e, w)
      | Inr xs \<Rightarrow>
          (case findIndex xs taskId of
             Inl e \<Rightarrow> (Inl e, w)
           | Inr None \<Rightarrow> (Inl (Error ''Task not found''), w)
           | Inr (Some taskIndex) \<Rightarrow>
               (let task = xs ! taskIndex;
                    updatedTask = JObj (set_prop (spread task) ''completed''
                                          (JBool (\<not> truthy (getprop task ''completed''))));
                    newTasks = xs[taskIndex := updatedTask];
                    w1 = w\<lparr>state := JObj (set_prop (spread (state w)) ''tasks'' (JArr newTasks))\<rparr>;
                    w2 = persistState (notifySubscribers (stamp now w1))
                in (Inr (getprop updatedTask ''completed''),
                    emit (Dispatched ''task:updated'' (TaskDetail updatedTask)) w2))))"

definition deleteTask :: "string \<Rightarrow> int \<Rightarrow> world \<Rightarrow> (error + jsval) \<times> world" where
  "deleteTask taskId now w =
     (case tasks_array (state w) of
        Inl e \<Rightarrow> (Inl e, w)
      | Inr xs \<Rightarrow>
          (case findIndex xs taskId of
             Inl e \<Rightarrow> (Inl e, w)
           | Inr None \<Rightarrow> (Inl (Error ''Task not found''), w)
           | Inr (Some taskIndex) \<Rightarrow>
               (let deletedTask = xs ! taskIndex in
                case filter_tasks (\<lambda>task. map_sum id (\<lambda>i. i \<noteq> JStr taskId) (get task ''id'')) xs of
                  Inl e \<Rightarrow> (Inl e, w)
                | Inr kept \<Rightarrow>
                    (let w1 = w\<lparr>state := JObj (set_prop (spread (state w)) ''tasks'' (JArr kept))\<rparr>;
                         w2 = persistState (notifySubscribers (stamp now w1))
                     in (Inr JUndefined,
                         emit (Dispatched ''task:deleted'' (TaskDetail deletedTask)) w2)))))"

definition setFilter :: "jsval \<Rightarrow> world \<Rightarrow> (error + jsval) \<times> world" where
  "setFilter f w =
     (if \<not> validateFilter f then (Inl (Error ''Invalid filter value''), w)
      else
        (let w1 = notifySubscribers (w\<lparr>state := JObj (set_prop (spread (state w)) ''filter'' f)\<rparr>)
         in (Inr JUndefined, emit (Dispatched ''filter:changed'' (FilterDetail f)) w1)))"

definition subscribe :: "nat \<Rightarrow> world \<Rightarrow> world" where
  "subscribe callback w = w\<lparr>subscribers := subscribers w @ [callback]\<rparr>"

definition unsubscribe :: "nat \<Rightarrow> world \<Rightarrow> world" where
  "unsubscribe callback w = w\<lparr>subscribers := filter (\<lambda>sub. sub \<noteq> callback) (subscribers w)\<rparr>"

text \<open>The world before \<^verbatim>\<open>init\<close>: \<^verbatim>\<open>state\<close> is \<^verbatim>\<open>null\<close>, nobody has subscribed, nothing has happened.\<close>

definition boot :: "string option \<Rightarrow> world" where
  "boot stored =
     \<lparr>state = JNull, subscribers = [], throwing = [], slot = stored,
      getItem_fault = None, setItem_fault = None, events = []\<rparr>"


section \<open>Properties of the data model\<close>

text \<open>The tasks of a state form an array in which no two elements have the same id.\<close>

definition unique_ids :: "jsval \<Rightarrow> bool" where
  "unique_ids st =
     (case getprop st ''tasks'' of
        JArr ts \<Rightarrow> distinct (map (\<lambda>task. getprop task ''id'') ts)
      | _ \<Rightarrow> False)"

text \<open>
  The validation policy in the specification's words, to be compared with \<open>isValidState\<close>:
  a Task has a non-empty string id, a title that is a string, not empty after trimming and
  at most 100 characters long then, a boolean completion flag and a positive integer
  creation time; a state has a sequence of such tasks, one of the three filters, and a
  \<^verbatim>\<open>lastSynced\<close> that is absent, \<^verbatim>\<open>null\<close> or a positive integer.
\<close>

definition positive_integer :: "jsval \<Rightarrow> bool" where
  "positive_integer v = (case v of JNum (Finite n) \<Rightarrow> 0 < n | _ \<Rightarrow> False)"

definition task_invariants :: "jsval \<Rightarrow> bool" where
  "task_invariants task =
     (case task of
        JObj ps \<Rightarrow>
          (case lookup ps ''id'' of JStr i \<Rightarrow> i \<noteq> [] | _ \<Rightarrow> False)
          \<and> (case lookup ps ''title'' of
                JStr s \<Rightarrow> trim s \<noteq> [] \<and> length (trim s) \<le> 100
              | _ \<Rightarrow> False)
          \<and> (case lookup ps ''completed'' of JBool b \<Rightarrow> True | _ \<Rightarrow> False)
          \<and> positive_integer (lookup ps ''createdAt'')
      | _ \<Rightarrow> False)"

definition spec_valid_state :: "jsval \<Rightarrow> bool" where
  "spec_valid_state st =
     (case st of
        JObj ps \<Rightarrow>
          (case lookup ps ''tasks'' of JArr ts \<Rightarrow> list_all task_invariants ts | _ \<Rightarrow> False)
          \<and> includes_lit [''all'', ''active'', ''completed''] (lookup ps ''filter'')
          \<and> (lookup ps ''lastSynced'' = JUndefined \<or> lookup ps ''lastSynced'' = JNull
               \<or> positive_integer (lookup ps ''lastSynced''))
      | _ \<Rightarrow> False)"

text \<open>
  The values that a JSON text can denote: no \<^verbatim>\<open>undefined\<close>, no \<^verbatim>\<open>NaN\<close>, no infinity, at any
  depth; the keys of every object are distinct, as they are in any object.
\<close>

fun json_safe :: "jsval \<Rightarrow> bool" where
  "json_safe JUndefined = False"
| "json_safe JNull = True"
| "json_safe (JBool b) = True"
| "json_safe (JNum (Finite i)) = True"
| "json_safe (JNum NaN) = False"
| "json_safe (JNum PosInf) = False"
| "json_safe (JNum NegInf) = False"
| "json_safe (JStr s) = True"
| "json_safe (JArr xs) = list_all json_safe xs"
| "json_safe (JObj ps) = (distinct (map fst ps) \<and> list_all (\<lambda>p. json_safe (snd p)) ps)"

text \<open>What may stand after a number literal: the end of the text, or a character that is not a digit.\<close>

definition follows_number :: "string \<Rightarrow> bool" where
  "follows_number rest = (rest = [] \<or> \<not> is_digit (hd rest))"

text \<open>The text of one property of an object.\<close>

definition ser_member :: "string \<times> jsval \<Rightarrow> string" where
  "ser_member p = quote (fst p) @ CHR '':'' # ser (snd p)"

section \<open>The State module over a store of objects\<close>

text \<open>
  The tree model cannot tell a copy from the object itself.  Here objects and arrays live
  in a store and are known by their address; a value is a primitive or a reference.  Only
  the read operations of the State module are modelled again, on the same source text, to
  see which objects their results share with the module's private state.  An object or
  array that has been frozen cannot be changed any more.
\<close>

type_synonym addr = nat

datatype hval = HUndefined | HNull | HBool bool | HNum jsnum | HStr string | HRef addr

datatype cell =
    ObjectCell "(string \<times> hval) list" bool
  | ArrayCell "hval list" bool

record store =
  cells :: "addr \<Rightarrow> cell option"
  lim :: addr
  state_var :: hval

fun hlookup :: "(string \<times> hval) list \<Rightarrow> string \<Rightarrow> hval" where
  "hlookup [] k = HUndefined"
| "hlookup ((k', v) # ps) k = (if k' = k then v else hlookup ps k)"

fun htruthy :: "hval \<Rightarrow> bool" where
  "htruthy HUndefined = False"
| "htruthy HNull = False"
| "htruthy (HBool b) = b"
| "htruthy (HNum (Finite n)) = (n \<noteq> 0)"
| "htruthy (HNum NaN) = False"
| "htruthy (HNum PosInf) = True"
| "htruthy (HNum NegInf) = True"
| "htruthy (HStr s) = (s \<noteq> [])"
| "htruthy (HRef a) = True"

text \<open>\<^verbatim>\<open>v.k\<close> through the store, for a base that is neither \<^verbatim>\<open>undefined\<close> nor \<^verbatim>\<open>null\<close>.\<close>

definition hprop :: "store \<Rightarrow> hval \<Rightarrow> string \<Rightarrow> hval" where
  "hprop st v k =
     (case v of
        HRef a \<Rightarrow>
          (case cells st a of
             Some (ObjectCell ps frozen) \<Rightarrow> hlookup ps k
           | Some (ArrayCell xs frozen) \<Rightarrow>
               (if k = ''length'' then HNum (Finite (int (length xs)))
                else case index_of_key k of
                       Some i \<Rightarrow> (if i < length xs then xs ! i else HUndefined)
                     | None \<Rightarrow> HUndefined)
           | None \<Rightarrow> HUndefined)
      | HStr s \<Rightarrow>
          (if k = ''length'' then HNum (Finite (int (length s)))
           else case index_of_key k of
                  Some i \<Rightarrow> (if i < length s then HStr [s ! i] else HUndefined)
                | None \<Rightarrow> HUndefined)
      | _ \<Rightarrow> HUndefined)"

definition hget :: "store \<Rightarrow> hval \<Rightarrow> string \<Rightarrow> error + hval" where
  "hget st v k =
     (case v of
        HUndefined \<Rightarrow> Inl TypeError
      | HNull \<Rightarrow> Inl TypeError
      | _ \<Rightarrow> Inr (hprop st v k))"

fun hindexed :: "nat \<Rightarrow> hval list \<Rightarrow> (string \<times> hval) list" where
  "hindexed i [] = []"
| "hindexed i (x # xs) = (show_nat i, x) # hindexed (Suc i) xs"

text \<open>The own properties copied by \<^verbatim>\<open>{...v}\<close>: the values are copied, so a reference stays a reference to the same object.\<close>

definition own_props :: "store \<Rightarrow> hval \<Rightarrow> (string \<times> hval) list" where
  "own_props st v =
     (case v of
        HRef a \<Rightarrow>
          (case cells st a of
             Some (ObjectCell ps frozen) \<Rightarrow> ps
           | Some (ArrayCell xs frozen) \<Rightarrow> hindexed 0 xs
           | None \<Rightarrow> [])
      | HStr s \<Rightarrow> hindexed 0 (map (\<lambda>c. HStr [c]) s)
      | _ \<Rightarrow> [])"

text \<open>A new object or array takes the next free address.\<close>

definition alloc :: "cell \<Rightarrow> store \<Rightarrow> addr \<times> store" where
  "alloc c st = (lim st, st\<lparr>cells := (cells st)(lim st \<mapsto> c), lim := Suc (lim st)\<rparr>)"

text \<open>\<^verbatim>\<open>getState\<close>: a new object with the properties of \<^verbatim>\<open>state\<close>, frozen.\<close>

definition getState_s :: "store \<Rightarrow> hval \<times> store" where
  "getState_s st =
     (case alloc (ObjectCell (own_props st (state_var st)) True) st of
        (a, st1) \<Rightarrow> (HRef a, st1))"

text \<open>The elements of \<^verbatim>\<open>tasks\<close> when \<^verbatim>\<open>tasks.filter\<close> is called.\<close>

definition tasks_elems :: "store \<Rightarrow> hval \<Rightarrow> error + hval list" where
  "tasks_elems st tasks =
     (case tasks of
        HRef b \<Rightarrow>
          (case cells st b of
             Some (ArrayCell xs frozen) \<Rightarrow> Inr xs
           | _ \<Rightarrow> Inl TypeError)
      | _ \<Rightarrow> Inl TypeError)"

text \<open>
  \<^verbatim>\<open>getFilteredTasks\<close>: under \<^verbatim>\<open>active\<close> and \<^verbatim>\<open>completed\<close> the result of \<^verbatim>\<open>tasks.filter\<close> is a new
  array (of the same task objects); in the default branch the result is \<^verbatim>\<open>tasks\<close> itself.
\<close>

definition getFilteredTasks_s :: "store \<Rightarrow> (error + hval) \<times> store" where
  "getFilteredTasks_s st =
     (case hget st (state_var st) ''tasks'' of
        Inl e \<Rightarrow> (Inl e, st)
      | Inr tasks \<Rightarrow>
          (let flt = hprop st (state_var st) ''filter'' in
           if flt = HStr ''active'' then
             (case tasks_elems st tasks of
                Inl e \<Rightarrow> (Inl e, st)
              | Inr xs \<Rightarrow>
                  (case filter_tasks
                          (\<lambda>task. map_sum id (\<lambda>c. \<not> htruthy c) (hget st task ''completed'')) xs of
                     Inl e \<Rightarrow> (Inl e, st)
                   | Inr kept \<Rightarrow>
                       (case alloc (ArrayCell kept False) st of (a, st1) \<Rightarrow> (Inr (HRef a), st1))))
           else if flt = HStr ''completed'' then
             (case tasks_elems st tasks of
                Inl e \<Rightarrow> (Inl e, st)
              | Inr xs \<Rightarrow>
                  (case filter_tasks
                          (\<lambda>task. map_sum id htruthy (hget st task ''completed'')) xs of
                     Inl e \<Rightarrow> (Inl e, st)
                   | Inr kept \<Rightarrow>
                       (case alloc (ArrayCell kept False) st of (a, st1) \<Rightarrow> (Inr (HRef a), st1))))
           else (Inr tasks, st)))"

text \<open>
  What code outside the module can do to an object it holds a reference to: change it into
  any other content (assign, add or delete properties, assign, push or remove elements),
  unless the object is frozen; then the attempt changes nothing.
\<close>

definition overwrite :: "addr \<Rightarrow> cell \<Rightarrow> store \<Rightarrow> store" where
  "overwrite a c st =
     (case cells st a of
        None \<Rightarrow> st
      | Some (ObjectCell ps frozen) \<Rightarrow> if frozen then st else st\<lparr>cells := (cells st)(a \<mapsto> c)\<rparr>
      | Some (ArrayCell xs frozen) \<Rightarrow> if frozen then st else st\<lparr>cells := (cells st)(a \<mapsto> c)\<rparr>)"

text \<open>The tree that a value denotes in a store, down to a given depth.\<close>

fun read_tree :: "nat \<Rightarrow> (addr \<Rightarrow> cell option) \<Rightarrow> hval \<Rightarrow> jsval" where
  "read_tree 0 h v = JUndefined"
| "read_tree (Suc n) h HUndefined = JUndefined"
| "read_tree (Suc n) h HNull = JNull"
| "read_tree (Suc n) h (HBool b) = JBool b"
| "read_tree (Suc n) h (HNum x) = JNum x"
| "read_tree (Suc n) h (HStr s) = JStr s"
| "read_tree (Suc n) h (HRef a) =
     (case h a of
        None \<Rightarrow> JUndefined
      | Some (ObjectCell ps frozen) \<Rightarrow> JObj (map (\<lambda>p. (fst p, read_tree n h (snd p))) ps)
      | Some (ArrayCell xs frozen) \<Rightarrow> JArr (map (read_tree n h) xs))"

text \<open>The module's state as its read operations show it from now on.\<close>

definition observe :: "nat \<Rightarrow> store \<Rightarrow> jsval" where
  "observe n st = read_tree n (cells st) (state_var st)"

text \<open>A store is closed when its references, and the state variable, point below the next free address.\<close>

definition below :: "addr \<Rightarrow> hval \<Rightarrow> bool" where
  "below N v = (case v of HRef a \<Rightarrow> a < N | _ \<Rightarrow> True)"

definition cell_below :: "addr \<Rightarrow> cell \<Rightarrow> bool" where
  "cell_below N c =
     (case c of
        ObjectCell ps frozen \<Rightarrow> list_all (\<lambda>p. below N (snd p)) ps
      | ArrayCell xs frozen \<Rightarrow> list_all (below N) xs)"

definition closed_store :: "store \<Rightarrow> bool" where
  "closed_store st =
     (below (lim st) (state_var st)
      \<and> list_all (\<lambda>a. case cells st a of None \<Rightarrow> True | Some c \<Rightarrow> cell_below (lim st) c)
           [0..<lim st])"

text \<open>
  A store for the examples: the state object at address 0, its \<^verbatim>\<open>tasks\<close> array at address 1,
  one task object at address 2.
\<close>

definition example_store :: "string \<Rightarrow> store" where
  "example_store flt =
     \<lparr>cells = [0 \<mapsto> ObjectCell [(''tasks'', HRef 1), (''filter'', HStr flt), (''lastSynced'', HNull)] False,
               1 \<mapsto> ArrayCell [HRef 2] False,
               2 \<mapsto> ObjectCell [(''id'', HStr ''a''), (''title'', HStr ''A''),
                                 (''completed'', HBool False), (''createdAt'', HNum (Finite 1))] False],
      lim = 3,
      state_var = HRef 0\<rparr>"

section \<open>Basic facts\<close>

lemma typeof_boolean: "typeof v = ''boolean'' \<longleftrightarrow> (\<exists>b. v = JBool b)"
  by (cases v) auto

lemma typeof_string: "typeof v = ''string'' \<longleftrightarrow> (\<exists>s. v = JStr s)"
  by (cases v) auto

lemma typeof_number: "typeof v = ''number'' \<longleftrightarrow> (\<exists>n. v = JNum n)"
  by (cases v) auto

lemma index_of_key_names [simp]:
  "index_of_key ''tasks'' = None" "index_of_key ''filter'' = None"
  "index_of_key ''lastSynced'' = None" "index_of_key ''id'' = None"
  "index_of_key ''title'' = None" "index_of_key ''completed'' = None"
  "index_of_key ''createdAt'' = None"
  by (simp_all add: index_of_key_def is_digit_def)

lemma isValidTask_iff:
  "isValidTask t \<longleftrightarrow>
     (\<exists>ps i ttl c n. t = JObj ps \<and> lookup ps ''id'' = JStr i \<and> lookup ps ''title'' = JStr ttl
        \<and> lookup ps ''completed'' = JBool c \<and> lookup ps ''createdAt'' = JNum n)"
proof (cases t)
  case (JObj ps)
  then show ?thesis
    by (simp add: isValidTask_def typeof_boolean typeof_string typeof_number)
next
  case (JArr xs)
  then show ?thesis by (simp add: isValidTask_def)
qed (simp_all add: isValidTask_def)

lemma isValidState_iff:
  "isValidState st \<longleftrightarrow>
     (\<exists>ps ts. st = JObj ps \<and> lookup ps ''tasks'' = JArr ts \<and> list_all isValidTask ts
        \<and> (lookup ps ''filter'' = JStr ''all'' \<or> lookup ps ''filter'' = JStr ''active''
             \<or> lookup ps ''filter'' = JStr ''completed'')
        \<and> (lookup ps ''lastSynced'' = JNull \<or> (\<exists>n. lookup ps ''lastSynced'' = JNum n)))"
proof (cases st)
  case (JObj ps)
  have arr: "isArray v \<longleftrightarrow> (\<exists>ts. v = JArr ts)" for v by (cases v) auto
  have inc: "includes_lit [''all'', ''active'', ''completed''] v \<longleftrightarrow>
      v = JStr ''all'' \<or> v = JStr ''active'' \<or> v = JStr ''completed''" for v
    by (cases v) auto
  show ?thesis unfolding JObj
    by (auto simp: isValidState_def arr inc typeof_number)
next
  case (JArr xs)
  then show ?thesis by (simp add: isValidState_def)
qed (simp_all add: isValidState_def)

lemma task_invariants_valid: "task_invariants t \<Longrightarrow> isValidTask t"
  by (auto simp: task_invariants_def isValidTask_iff positive_integer_def
      split: jsval.splits jsnum.splits)

lemma trim_all_space: "list_all is_space s \<Longrightarrow> trim s = []"
proof -
  assume "list_all is_space s"
  then have d: "dropWhile is_space s = []" by (simp add: list_all_iff)
  show ?thesis by (simp only: trim_def d rev.simps dropWhile.simps)
qed

lemma filter_tasks_total:
  "\<forall>x \<in> set xs. keep x = Inr (p x) \<Longrightarrow> filter_tasks keep xs = Inr (filter p xs)"
  by (induction xs) auto

lemma slot_notify_each [simp]: "slot (notify_each cbs w) = slot w"
  by (induction cbs arbitrary: w) (auto simp: emit_def)

lemma state_notify_each [simp]: "state (notify_each cbs w) = state w"
  by (induction cbs arbitrary: w) (auto simp: emit_def)

lemmas world_defs = init_def load_def load_with_def load_try_def getItem_def boot_def getDefaultState_def
  notifySubscribers_def emit_def getState_def persistState_def save_def save_try_def setItem_def
  handleStorageError_def stamp_def subscribe_def

lemma init_boot_None:
  "init (boot None) =
     \<lparr>state = JObj [(''tasks'', JArr []), (''filter'', JStr ''all''), (''lastSynced'', JNull)],
      subscribers = [], throwing = [], slot = None,
      getItem_fault = None, setItem_fault = None, events = []\<rparr>"
  by (simp add: world_defs)

section \<open>Facts about the state operations\<close>

lemma lookup_set_prop_same [simp]: "lookup (set_prop ps k v) k = v"
  by (induction ps) auto

lemma lookup_set_prop_other [simp]: "k' \<noteq> k \<Longrightarrow> lookup (set_prop ps k v) k' = lookup ps k'"
  by (induction ps) auto

lemma state_save [simp]: "state (snd (save st w)) = state w"
  by (auto simp: save_def save_try_def setItem_def handleStorageError_def emit_def
      split: sum.splits option.splits)

lemma state_persistState [simp]: "state (persistState w) = state w"
proof -
  have "state (snd (save (state w) w)) = state w" by simp
  then show ?thesis
    by (cases "save (state w) w") (simp add: persistState_def emit_def)
qed

lemma state_notifySubscribers [simp]: "state (notifySubscribers w) = state w"
  by (simp add: notifySubscribers_def)

lemma state_emit [simp]: "state (emit e w) = state w"
  by (simp add: emit_def)

lemma findIndex_Some:
  "findIndex xs tid = Inr (Some i) \<Longrightarrow> i < length xs \<and> getprop (xs ! i) ''id'' = JStr tid"
proof (induction xs arbitrary: i)
  case Nil
  then show ?case by simp
next
  case (Cons x xs)
  show ?case
  proof (cases "get x ''id''")
    case (Inl e)
    with Cons.prems show ?thesis by simp
  next
    case (Inr v)
    then have gp: "getprop x ''id'' = v" by (cases x) auto
    show ?thesis
    proof (cases "v = JStr tid")
      case True
      with Cons.prems Inr gp show ?thesis by simp
    next
      case False
      with Cons.prems Inr obtain j where "findIndex xs tid = Inr (Some j)" and "i = Suc j"
        by (auto split: sum.splits option.splits)
      with Cons.IH [of j] show ?thesis by simp
    qed
  qed
qed

lemma getprop_id_JObj: "getprop t ''id'' = JStr tid \<Longrightarrow> \<exists>qs. t = JObj qs"
  by (cases t) (auto simp: index_of_key_def is_digit_def)

lemma filter_tasks_Inr:
  "filter_tasks keep xs = Inr ys \<Longrightarrow> ys = filter (\<lambda>x. keep x = Inr True) xs"
  by (induction xs arbitrary: ys) (auto split: sum.splits)

lemma tasks_array_Inr: "tasks_array st = Inr xs \<Longrightarrow> getprop st ''tasks'' = JArr xs"
  by (cases st) (auto simp: tasks_array_def split: jsval.splits)

lemma unique_ids_JObj: "unique_ids st \<Longrightarrow> \<exists>ps. st = JObj ps"
  by (cases st) (auto simp: unique_ids_def index_of_key_def is_digit_def)

section \<open>The JSON codec: parsing what was serialised\<close>

subsection \<open>Numerals\<close>

lemma of_char_digit_char: "d < 10 \<Longrightarrow> (of_char (digit_char d) :: nat) = 48 + d"
  by (simp add: digit_char_def)

lemma is_digit_digit_char [simp]: "d < 10 \<Longrightarrow> is_digit (digit_char d)"
  by (simp add: is_digit_def of_char_digit_char)

lemma digit_val_digit_char [simp]: "d < 10 \<Longrightarrow> digit_val (digit_char d) = d"
  by (simp add: digit_val_def of_char_digit_char)

lemma char_of_48: "char_of (48::nat) = CHR ''0''"
  by code_simp

lemma digit_char_zero: "d < 10 \<Longrightarrow> digit_char d = CHR ''0'' \<longleftrightarrow> d = 0"
proof
  assume d: "d < 10" and "digit_char d = CHR ''0''"
  then have "(of_char (digit_char d) :: nat) = of_char (CHR ''0'')" by simp
  with d show "d = 0" by (simp add: of_char_digit_char)
next
  assume "d = 0"
  then show "digit_char d = CHR ''0''" by (simp add: digit_char_def char_of_48)
qed

lemma digits_val_snoc: "digits_val (ds @ [c]) = 10 * digits_val ds + digit_val c"
  by (simp add: digits_val_def)

lemma show_nat_digits: "list_all is_digit (show_nat n)"
  by (induction n rule: show_nat.induct) (subst show_nat.simps, simp)

lemma show_nat_not_Nil [simp]: "show_nat n \<noteq> []"
  by (subst show_nat.simps) simp

lemma digits_val_show_nat: "digits_val (show_nat n) = n"
proof (induction n rule: show_nat.induct)
  case (1 n)
  show ?case
  proof (cases "n < 10")
    case True
    then show ?thesis
      by (subst show_nat.simps) (simp add: digits_val_def)
  next
    case False
    with 1 show ?thesis
      by (subst show_nat.simps) (simp add: digits_val_snoc)
  qed
qed

lemma hd_show_nat: "hd (show_nat n) = CHR ''0'' \<longleftrightarrow> n = 0"
proof (induction n rule: show_nat.induct)
  case (1 n)
  show ?case
  proof (cases "n < 10")
    case True
    then show ?thesis
      by (subst show_nat.simps) (simp add: digit_char_zero)
  next
    case False
    then have "n div 10 \<noteq> 0" by simp
    with 1 False show ?thesis
      by (subst show_nat.simps) simp
  qed
qed

lemma show_nat_0: "show_nat 0 = ''0''"
  by (subst show_nat.simps) (simp add: digit_char_def char_of_48)

lemma takeWhile_digits:
  "list_all is_digit ds \<Longrightarrow> follows_number rest \<Longrightarrow> takeWhile is_digit (ds @ rest) = ds"
  by (cases rest) (auto simp: follows_number_def list_all_iff takeWhile_append)

lemma dropWhile_digits:
  "list_all is_digit ds \<Longrightarrow> follows_number rest \<Longrightarrow> dropWhile is_digit (ds @ rest) = rest"
  by (cases rest) (auto simp: follows_number_def list_all_iff dropWhile_append)

lemma parse_nat_show_nat:
  assumes "follows_number rest"
  shows "parse_nat (show_nat n @ rest) = Some (n, rest)"
proof (cases "n = 0")
  case True
  then show ?thesis
    by (simp add: show_nat_0 parse_nat_def is_digit_def)
next
  case False
  obtain c cs where cs: "show_nat n = c # cs"
    by (cases "show_nat n") simp_all
  have dig: "is_digit c"
    using show_nat_digits [of n] by (simp add: cs)
  have nz: "c \<noteq> CHR ''0''"
    using hd_show_nat [of n] False by (simp add: cs)
  have "parse_nat ((c # cs) @ rest)
      = Some (digits_val (takeWhile is_digit ((c # cs) @ rest)), dropWhile is_digit ((c # cs) @ rest))"
    using dig nz by (simp add: parse_nat_def)
  also have "\<dots> = Some (n, rest)"
    using takeWhile_digits [OF show_nat_digits assms, of n]
      dropWhile_digits [OF show_nat_digits assms, of n] digits_val_show_nat [of n]
    by (simp only: cs [symmetric])
  finally show ?thesis by (simp add: cs)
qed

lemma hd_show_nat_not_minus: "hd (show_nat n) \<noteq> CHR ''-''"
proof -
  obtain c cs where cs: "show_nat n = c # cs"
    by (cases "show_nat n") simp_all
  have "is_digit c" using show_nat_digits [of n] by (simp add: cs)
  then show ?thesis by (auto simp: cs is_digit_def)
qed

lemma parse_number_show_int:
  assumes "follows_number rest"
  shows "parse_number (show_int i @ rest) = Some (i, rest)"
proof (cases "i < 0")
  case True
  then show ?thesis
    by (simp add: show_int_def parse_number_def parse_nat_show_nat [OF assms])
next
  case False
  obtain c cs where cs: "show_nat (nat i) = c # cs"
    by (cases "show_nat (nat i)") simp_all
  have "c \<noteq> CHR ''-''" using hd_show_nat_not_minus [of "nat i"] by (simp add: cs)
  then have "parse_number (show_nat (nat i) @ rest)
      = map_option (\<lambda>(n, rest). (int n, rest)) (parse_nat (show_nat (nat i) @ rest))"
    by (simp add: parse_number_def cs)
  with False show ?thesis
    by (simp add: show_int_def parse_nat_show_nat [OF assms])
qed

subsection \<open>String literals\<close>

lemma hex_val_zero: "hex_val (CHR ''0'') = Some 0"
  by (simp add: hex_val_def)

lemma hex_val_hex_digit: "d < 16 \<Longrightarrow> hex_val (hex_digit d) = Some d"
  by (simp add: hex_val_def hex_digit_def Let_def)

lemma parse_chars_escape:
  "e \<noteq> CHR ''u'' \<Longrightarrow> unescape e = Some ch \<Longrightarrow>
     parse_chars (backslash # e # tail) = cons_fst ch (parse_chars tail)"
  by (simp add: dquote_def backslash_def)

lemma parse_chars_control:
  assumes "(of_char c :: nat) < 32"
  shows "parse_chars (backslash # CHR ''u'' # CHR ''0'' # CHR ''0''
            # hex_digit (of_char c div 16) # hex_digit (of_char c mod 16) # tail)
         = cons_fst c (parse_chars tail)"
proof -
  let ?n = "of_char c :: nat"
  have "hex4 (CHR ''0'') (CHR ''0'') (hex_digit (?n div 16)) (hex_digit (?n mod 16))
      = Some (((0 * 16 + 0) * 16 + ?n div 16) * 16 + ?n mod 16)"
    using assms by (simp add: hex4_def hex_val_zero hex_val_hex_digit)
  also have "\<dots> = Some ?n" by simp
  finally have h: "hex4 (CHR ''0'') (CHR ''0'') (hex_digit (?n div 16)) (hex_digit (?n mod 16)) = Some ?n" .
  have lt: "?n < 256" using assms by simp
  show ?thesis
    by (simp add: h lt dquote_def backslash_def)
qed

lemma parse_chars_plain:
  "c \<noteq> dquote \<Longrightarrow> c \<noteq> backslash \<Longrightarrow> \<not> (of_char c :: nat) < 32 \<Longrightarrow>
     parse_chars (c # tail) = cons_fst c (parse_chars tail)"
  by simp

lemma parse_chars_quote_char:
  "parse_chars (quote_char c @ tail) = cons_fst c (parse_chars tail)"
proof -
  consider (dq) "c = dquote" | (bs) "c = backslash" | (b) "c = CHR 0x08" | (f) "c = CHR 0x0C"
    | (n) "c = CHR 0x0A" | (r) "c = CHR 0x0D" | (t) "c = CHR 0x09"
    | (ctl) "c \<noteq> dquote" "c \<noteq> backslash" "c \<noteq> CHR 0x08" "c \<noteq> CHR 0x0C" "c \<noteq> CHR 0x0A"
        "c \<noteq> CHR 0x0D" "c \<noteq> CHR 0x09" "(of_char c :: nat) < 32"
    | (plain) "c \<noteq> dquote" "c \<noteq> backslash" "c \<noteq> CHR 0x08" "c \<noteq> CHR 0x0C" "c \<noteq> CHR 0x0A"
        "c \<noteq> CHR 0x0D" "c \<noteq> CHR 0x09" "\<not> (of_char c :: nat) < 32"
    by blast
  then show ?thesis
  proof cases
    case dq
    have "parse_chars (backslash # dquote # tail) = cons_fst dquote (parse_chars tail)"
      by (rule parse_chars_escape) (simp_all add: unescape_def dquote_def)
    then show ?thesis by (simp add: dq quote_char_def)
  next
    case bs
    have "parse_chars (backslash # backslash # tail) = cons_fst backslash (parse_chars tail)"
      by (rule parse_chars_escape) (simp_all add: unescape_def dquote_def backslash_def)
    then show ?thesis by (simp add: bs quote_char_def dquote_def backslash_def)
  next
    case b
    have "parse_chars (backslash # CHR ''b'' # tail) = cons_fst (CHR 0x08) (parse_chars tail)"
      by (rule parse_chars_escape) (simp_all add: unescape_def dquote_def backslash_def)
    then show ?thesis by (simp add: b quote_char_def dquote_def backslash_def)
  next
    case f
    have "parse_chars (backslash # CHR ''f'' # tail) = cons_fst (CHR 0x0C) (parse_chars tail)"
      by (rule parse_chars_escape) (simp_all add: unescape_def dquote_def backslash_def)
    then show ?thesis by (simp add: f quote_char_def dquote_def backslash_def)
  next
    case n
    have "parse_chars (backslash # CHR ''n'' # tail) = cons_fst (CHR 0x0A) (parse_chars tail)"
      by (rule parse_chars_escape) (simp_all add: unescape_def dquote_def backslash_def)
    then show ?thesis by (simp add: n quote_char_def dquote_def backslash_def)
  next
    case r
    have "parse_chars (backslash # CHR ''r'' # tail) = cons_fst (CHR 0x0D) (parse_chars tail)"
      by (rule parse_chars_escape) (simp_all add: unescape_def dquote_def backslash_def)
    then show ?thesis by (simp add: r quote_char_def dquote_def backslash_def)
  next
    case t
    have "parse_chars (backslash # CHR ''t'' # tail) = cons_fst (CHR 0x09) (parse_chars tail)"
      by (rule parse_chars_escape) (simp_all add: unescape_def dquote_def backslash_def)
    then show ?thesis by (simp add: t quote_char_def dquote_def backslash_def)
  next
    case ctl
    then have "quote_char c = [backslash, CHR ''u'', CHR ''0'', CHR ''0'',
        hex_digit (of_char c div 16), hex_digit (of_char c mod 16)]"
      by (simp add: quote_char_def)
    then show ?thesis
      using parse_chars_control [OF ctl(8), of tail] by simp
  next
    case plain
    then have "quote_char c = [c]"
      by (simp add: quote_char_def)
    then show ?thesis
      using parse_chars_plain [OF plain(1,2,8), of tail] by simp
  qed
qed

lemma parse_chars_quoted:
  "parse_chars (concat (map quote_char s) @ dquote # rest) = Some (s, rest)"
proof (induction s)
  case Nil
  show ?case by simp
next
  case (Cons c s)
  have "parse_chars (concat (map quote_char (c # s)) @ dquote # rest)
      = parse_chars (quote_char c @ (concat (map quote_char s) @ dquote # rest))"
    by simp
  also have "\<dots> = cons_fst c (parse_chars (concat (map quote_char s) @ dquote # rest))"
    by (rule parse_chars_quote_char)
  also have "\<dots> = Some (c # s, rest)"
    by (simp add: Cons.IH cons_fst_def)
  finally show ?case .
qed

subsection \<open>Values\<close>

lemma skip_ws_nonws: "\<not> is_json_ws c \<Longrightarrow> skip_ws (c # cs) = c # cs"
  by (simp add: skip_ws_def)

lemma show_int_first: "\<exists>c cs. show_int i = c # cs \<and> (c = CHR ''-'' \<or> is_digit c)"
proof (cases "i < 0")
  case True
  then show ?thesis by (simp add: show_int_def)
next
  case False
  obtain c cs where cs: "show_nat (nat i) = c # cs"
    by (cases "show_nat (nat i)") simp_all
  have "is_digit c" using show_nat_digits [of "nat i"] by (simp add: cs)
  with False cs show ?thesis by (simp add: show_int_def)
qed

lemma digit_not_special:
  assumes "c = CHR ''-'' \<or> is_digit c"
  shows "\<not> is_json_ws c" "c \<noteq> CHR ''n''" "c \<noteq> CHR ''t''" "c \<noteq> CHR ''f''" "c \<noteq> dquote"
    "c \<noteq> CHR ''[''" "c \<noteq> CHR ''{''" "c \<noteq> CHR '']''" "c \<noteq> CHR ''}''"
  using assms by (auto simp: is_digit_def is_json_ws_def dquote_def)

text \<open>A text that starts with the first character of a value.\<close>

lemma ser_first:
  "\<exists>c cs. ser v = c # cs \<and> \<not> is_json_ws c \<and> c \<noteq> CHR '']'' \<and> c \<noteq> CHR ''}''"
proof (cases v)
  case (JNum x)
  show ?thesis
  proof (cases x)
    case (Finite i)
    obtain c cs where "show_int i = c # cs" "c = CHR ''-'' \<or> is_digit c"
      using show_int_first by blast
    then show ?thesis
      using digit_not_special [of c] by (simp add: JNum Finite)
  qed (simp_all add: JNum is_json_ws_def)
next
  case (JBool b)
  then show ?thesis by (cases b) (simp_all add: is_json_ws_def)
qed (simp_all add: is_json_ws_def quote_def dquote_def)

lemma join_first:
  "xs \<noteq> [] \<Longrightarrow> \<exists>c cs. join (map ser xs) = c # cs \<and> \<not> is_json_ws c \<and> c \<noteq> CHR '']''"
proof (cases xs)
  case Nil
  assume "xs \<noteq> []"
  with Nil show ?thesis by simp
next
  case (Cons x ys)
  obtain c cs where c: "ser x = c # cs" "\<not> is_json_ws c" "c \<noteq> CHR '']''"
    using ser_first by blast
  show ?thesis
    by (cases ys) (use c Cons in simp_all)
qed

lemma join_member_first:
  "ps \<noteq> [] \<Longrightarrow> \<exists>cs. join (map ser_member ps) = dquote # cs"
proof (cases ps)
  case Nil
  assume "ps \<noteq> []"
  with Nil show ?thesis by simp
next
  case (Cons p qs)
  show ?thesis
    by (cases qs) (simp_all add: Cons ser_member_def quote_def)
qed

lemma parse_value_null: "parse_value (Suc n) (''null'' @ rest) = Some (JNull, rest)"
  by (simp add: skip_ws_def is_json_ws_def)

lemma parse_value_true: "parse_value (Suc n) (''true'' @ rest) = Some (JBool True, rest)"
  by (simp add: skip_ws_def is_json_ws_def)

lemma parse_value_false: "parse_value (Suc n) (''false'' @ rest) = Some (JBool False, rest)"
  by (simp add: skip_ws_def is_json_ws_def)

lemma parse_value_string:
  "parse_value (Suc n) (quote s @ rest) = Some (JStr s, rest)"
proof -
  have "skip_ws (quote s @ rest) = dquote # (concat (map quote_char s) @ dquote # rest)"
    by (simp add: quote_def skip_ws_def is_json_ws_def dquote_def)
  then show ?thesis
    by (simp add: parse_chars_quoted) (simp add: dquote_def)
qed

lemma parse_value_number:
  assumes "follows_number rest"
  shows "parse_value (Suc n) (show_int i @ rest) = Some (JNum (Finite i), rest)"
proof -
  obtain c cs where c: "show_int i = c # cs" "c = CHR ''-'' \<or> is_digit c"
    using show_int_first by blast
  note ns = digit_not_special [OF c(2)]
  have "parse_value (Suc n) (c # cs @ rest)
      = map_option (\<lambda>(i, rest). (JNum (Finite i), rest)) (parse_number (c # cs @ rest))"
    using c(2) ns by (simp add: skip_ws_nonws)
  also have "parse_number (c # cs @ rest) = Some (i, rest)"
    using parse_number_show_int [OF assms, of i] by (simp add: c(1))
  finally show ?thesis by (simp add: c(1))
qed

lemma parse_value_empty_array: "parse_value (Suc n) (''[]'' @ rest) = Some (JArr [], rest)"
  by (simp add: skip_ws_def is_json_ws_def dquote_def)

lemma parse_value_empty_object: "parse_value (Suc n) (''{}'' @ rest) = Some (JObj [], rest)"
  by (simp add: skip_ws_def is_json_ws_def dquote_def)

lemma parse_value_array:
  assumes "\<not> is_json_ws d" "d \<noteq> CHR '']''"
  shows "parse_value (Suc n) (CHR ''['' # d # r)
     = map_option (\<lambda>(vs, rest). (JArr vs, rest)) (parse_elems n (d # r))"
  using assms by (simp add: skip_ws_def is_json_ws_def dquote_def)

lemma parse_value_object:
  "parse_value (Suc n) (CHR ''{'' # dquote # r)
     = map_option (\<lambda>(ps, rest). (JObj ps, rest)) (parse_members n [] (dquote # r))"
  by (simp add: skip_ws_def is_json_ws_def dquote_def)

lemma follows_number_simps [simp]:
  "follows_number []" "follows_number (CHR '','' # r)" "follows_number (CHR '']'' # r)"
  "follows_number (CHR ''}'' # r)"
  by (simp_all add: follows_number_def is_digit_def)

lemma length_join_Cons2:
  "length (join (x # y # ys)) = length x + 1 + length (join (y # ys))"
  by simp

lemma set_prop_fresh: "k \<notin> fst ` set ps \<Longrightarrow> set_prop ps k v = ps @ [(k, v)]"
  by (induction ps) auto

lemma parse_elems_round:
  assumes P: "\<And>x n rest. x \<in> set xs \<Longrightarrow> 2 * length (ser x) \<le> n \<Longrightarrow> follows_number rest
                \<Longrightarrow> parse_value n (ser x @ rest) = Some (x, rest)"
    and "xs \<noteq> []" and "2 * length (join (map ser xs)) + 1 \<le> n"
  shows "parse_elems n (join (map ser xs) @ CHR '']'' # rest) = Some (xs, rest)"
  using assms
proof (induction xs arbitrary: n)
  case Nil
  then show ?case by simp
next
  case (Cons x ys)
  note IH = Cons.IH and pv = Cons.prems(1) and bound = Cons.prems(3)
  from bound obtain m where n: "n = Suc m" by (cases n) auto
  show ?case
  proof (cases ys)
    case Nil
    have "parse_value m (ser x @ CHR '']'' # rest) = Some (x, CHR '']'' # rest)"
      using bound n Nil by (intro pv) simp_all
    then show ?thesis
      by (simp add: n Nil skip_ws_def is_json_ws_def)
  next
    case ys: (Cons y zs)
    let ?tail = "join (map ser ys) @ CHR '']'' # rest"
    have len: "length (join (map ser (x # ys))) = length (ser x) + 1 + length (join (map ser ys))"
      by (simp add: ys)
    have v: "parse_value m (ser x @ CHR '','' # ?tail) = Some (x, CHR '','' # ?tail)"
      using bound n len by (intro pv) simp_all
    have "parse_elems m ?tail = Some (ys, rest)"
    proof (rule IH)
      show "ys \<noteq> []" by (simp add: ys)
      show "2 * length (join (map ser ys)) + 1 \<le> m" using bound n len by simp
      show "parse_value k (ser z @ r) = Some (z, r)"
        if "z \<in> set ys" "2 * length (ser z) \<le> k" "follows_number r" for z k r
        using that by (intro pv) simp_all
    qed
    with v show ?thesis
      by (simp add: n ys skip_ws_def is_json_ws_def cons_fst_def)
  qed
qed

lemma parse_members_step:
  assumes v: "parse_value m (ser v @ d # r) = Some (v, d # r)" and d: "\<not> is_json_ws d"
  shows "parse_members (Suc m) acc (ser_member (k, v) @ d # r)
     = (if d = CHR '','' then parse_members m (set_prop acc k v) r
        else if d = CHR ''}'' then Some (set_prop acc k v, r)
        else None)"
proof -
  have whole: "ser_member (k, v) @ d # r
      = dquote # (concat (map quote_char k) @ dquote # (CHR '':'' # (ser v @ d # r)))"
    by (simp add: ser_member_def quote_def)
  have start: "skip_ws (dquote # t) = dquote # t" for t
    by (simp add: skip_ws_def is_json_ws_def dquote_def)
  have colon: "skip_ws (CHR '':'' # t) = CHR '':'' # t" for t
    by (simp add: skip_ws_def is_json_ws_def)
  have after: "skip_ws (d # r) = d # r"
    by (rule skip_ws_nonws [OF d])
  show ?thesis
    unfolding whole parse_members.simps start
    by (simp add: parse_chars_quoted colon v after)
qed

lemma parse_members_round:
  assumes P: "\<And>p n rest. p \<in> set ps \<Longrightarrow> 2 * length (ser (snd p)) \<le> n \<Longrightarrow> follows_number rest
                \<Longrightarrow> parse_value n (ser (snd p) @ rest) = Some (snd p, rest)"
    and "ps \<noteq> []" and "distinct (map fst (acc @ ps))"
    and "2 * length (join (map ser_member ps)) + 1 \<le> n"
  shows "parse_members n acc (join (map ser_member ps) @ CHR ''}'' # rest) = Some (acc @ ps, rest)"
  using assms
proof (induction ps arbitrary: n acc)
  case Nil
  then show ?case by simp
next
  case (Cons p qs)
  note IH = Cons.IH and pv = Cons.prems(1) and dist = Cons.prems(3) and bound = Cons.prems(4)
  obtain k v where p: "p = (k, v)" by (cases p)
  from bound obtain m where n: "n = Suc m" by (cases n) auto
  from dist have fresh: "k \<notin> fst ` set acc" by (auto simp: p)
  have sp: "set_prop acc k v = acc @ [(k, v)]"
    by (rule set_prop_fresh [OF fresh])
  have lenp: "length (ser_member p) = length (quote k) + 1 + length (ser v)"
    by (simp add: p ser_member_def)
  have rb: "\<not> is_json_ws (CHR ''}'')" and cm: "\<not> is_json_ws (CHR '','')"
    by (simp_all add: is_json_ws_def)
  show ?case
  proof (cases qs)
    case Nil
    have b: "2 * length (ser v) \<le> m"
      using bound n lenp by (simp add: Nil)
    have v: "parse_value m (ser v @ CHR ''}'' # rest) = Some (v, CHR ''}'' # rest)"
      using pv [of p m "CHR ''}'' # rest"] b by (simp add: p)
    have "parse_members (Suc m) acc (ser_member (k, v) @ CHR ''}'' # rest) = Some (acc @ [(k, v)], rest)"
      unfolding parse_members_step [OF v rb] by (simp add: sp)
    then show ?thesis
      by (simp add: Nil p n)
  next
    case qs: (Cons q rs)
    let ?tail = "join (map ser_member qs) @ CHR ''}'' # rest"
    have len: "length (join (map ser_member (p # qs)))
        = length (ser_member p) + 1 + length (join (map ser_member qs))"
      by (simp add: qs)
    have b: "2 * length (ser v) \<le> m"
      using bound n lenp len by simp
    have v: "parse_value m (ser v @ CHR '','' # ?tail) = Some (v, CHR '','' # ?tail)"
      using pv [of p m "CHR '','' # ?tail"] b by (simp add: p)
    have rest: "parse_members m (acc @ [(k, v)]) ?tail = Some ((acc @ [(k, v)]) @ qs, rest)"
    proof (rule IH)
      show "qs \<noteq> []" by (simp add: qs)
      show "distinct (map fst ((acc @ [(k, v)]) @ qs))" using dist by (simp add: p)
      show "2 * length (join (map ser_member qs)) + 1 \<le> m" using bound n len by simp
      show "parse_value j (ser (snd z) @ r) = Some (snd z, r)"
        if "z \<in> set qs" "2 * length (ser (snd z)) \<le> j" "follows_number r" for z j r
        using that by (intro pv) simp_all
    qed
    have "parse_members (Suc m) acc (ser_member (k, v) @ CHR '','' # ?tail) = Some (acc @ (k, v) # qs, rest)"
      unfolding parse_members_step [OF v cm] by (simp add: sp rest)
    moreover have "join (map ser_member (p # qs)) @ CHR ''}'' # rest = ser_member (k, v) @ CHR '','' # ?tail"
      by (simp add: qs p)
    ultimately show ?thesis
      by (simp only: n p)
  qed
qed

lemma ser_JObj_safe:
  assumes "list_all (\<lambda>p. json_safe (snd p)) ps"
  shows "ser (JObj ps) = CHR ''{'' # join (map ser_member ps) @ ''}''"
proof -
  have "filter (\<lambda>p. snd p \<noteq> JUndefined) ps = ps"
    using assms by (auto simp: list_all_iff filter_id_conv)
  moreover have "(\<lambda>p. quote (fst p) @ CHR '':'' # ser (snd p)) = ser_member"
    by (simp add: ser_member_def fun_eq_iff)
  ultimately show ?thesis by simp
qed

lemma parse_value_round:
  "json_safe v \<Longrightarrow> 2 * length (ser v) \<le> n \<Longrightarrow> follows_number rest
     \<Longrightarrow> parse_value n (ser v @ rest) = Some (v, rest)"
proof (induction v arbitrary: n rest)
  case JUndefined
  then show ?case by simp
next
  case JNull
  then obtain m where "n = Suc m" by (cases n) auto
  then show ?case using parse_value_null [of m rest] by simp
next
  case (JBool b)
  then obtain m where "n = Suc m" by (cases n; cases b) auto
  then show ?case
    using parse_value_true [of m rest] parse_value_false [of m rest] by (cases b) simp_all
next
  case (JNum x)
  then obtain i where x: "x = Finite i" by (cases x) auto
  obtain c cs where "show_int i = c # cs" using show_int_first by blast
  with JNum.prems(2) x obtain m where "n = Suc m" by (cases n) auto
  then show ?case
    using parse_value_number [OF JNum.prems(3), of m i] by (simp add: x)
next
  case (JStr s)
  then obtain m where "n = Suc m" by (cases n) (auto simp: quote_def)
  then show ?case using parse_value_string [of m s rest] by simp
next
  case (JArr xs)
  from JArr.prems(2) obtain m where n: "n = Suc m" by (cases n) auto
  show ?case
  proof (cases "xs = []")
    case True
    then show ?thesis using parse_value_empty_array [of m rest] by (simp add: n)
  next
    case False
    obtain d r where d: "join (map ser xs) = d # r" "\<not> is_json_ws d" "d \<noteq> CHR '']''"
      using join_first [OF False] by blast
    have "parse_elems m (join (map ser xs) @ CHR '']'' # rest) = Some (xs, rest)"
    proof (rule parse_elems_round [OF _ False])
      show "2 * length (join (map ser xs)) + 1 \<le> m" using JArr.prems(2) n by simp
      show "parse_value k (ser x @ r) = Some (x, r)"
        if "x \<in> set xs" "2 * length (ser x) \<le> k" "follows_number r" for x k r
        using that JArr.prems(1) by (intro JArr.IH) (simp_all add: list_all_iff)
    qed
    then have "parse_elems m (d # r @ CHR '']'' # rest) = Some (xs, rest)"
      by (simp add: d(1))
    then show ?thesis
      using parse_value_array [OF d(2,3), of m "r @ CHR '']'' # rest"]
      by (simp add: n d(1))
  qed
next
  case (JObj ps)
  from JObj.prems(1) have safe: "list_all (\<lambda>p. json_safe (snd p)) ps"
    and dist: "distinct (map fst ps)" by simp_all
  note ser = ser_JObj_safe [OF safe]
  from JObj.prems(2) obtain m where n: "n = Suc m" by (cases n) auto
  show ?case
  proof (cases "ps = []")
    case True
    then show ?thesis using parse_value_empty_object [of m rest] by (simp add: n)
  next
    case False
    obtain r where r: "join (map ser_member ps) = dquote # r"
      using join_member_first [OF False] by blast
    have "parse_members m [] (join (map ser_member ps) @ CHR ''}'' # rest) = Some ([] @ ps, rest)"
    proof (rule parse_members_round [OF _ False])
      show "distinct (map fst ([] @ ps))" using dist by simp
      show "2 * length (join (map ser_member ps)) + 1 \<le> m"
        using JObj.prems(2) n unfolding ser by simp
      show "parse_value k (ser (snd p) @ r') = Some (snd p, r')"
        if "p \<in> set ps" "2 * length (ser (snd p)) \<le> k" "follows_number r'" for p k r'
      proof (rule JObj.IH [of p "snd p"])
        show "p \<in> set ps" by (rule that(1))
        show "snd p \<in> Basic_BNFs.snds p" by (cases p) simp
        show "json_safe (snd p)" using safe that(1) by (simp add: list_all_iff)
      qed (use that in simp_all)
    qed
    then have "parse_members m [] (dquote # r @ CHR ''}'' # rest) = Some (ps, rest)"
      by (simp add: r)
    then show ?thesis
      using parse_value_object [of m "r @ CHR ''}'' # rest"]
      unfolding ser by (simp add: n r)
  qed
qed

lemma JSON_parse_ser: "json_safe v \<Longrightarrow> JSON_parse (ser v) = Inr v"
  using parse_value_round [of v "2 * length (ser v) + 2" "[]"]
  by (simp add: JSON_parse_def skip_ws_def)

section \<open>Facts about the store model\<close>

lemma read_tree_fresh:
  assumes closed: "\<And>a c. a < N \<Longrightarrow> h a = Some c \<Longrightarrow> cell_below N c"
    and v: "below N v"
  shows "read_tree n (h(N := x)) v = read_tree n h v"
  using v
proof (induction n arbitrary: v)
  case 0
  show ?case by simp
next
  case (Suc n)
  have IH: "read_tree n (h(N := x)) u = read_tree n h u" if "below N u" for u
    using that by (rule Suc.IH)
  show ?case
  proof (cases v)
    case (HRef a)
    with Suc.prems have a: "a < N" by (simp add: below_def)
    then have upd: "(h(N := x)) a = h a" by simp
    show ?thesis
    proof (cases "h a")
      case None
      then show ?thesis
        by (simp only: HRef read_tree.simps upd option.case)
    next
      case (Some c)
      from closed [OF a Some] have cb: "cell_below N c" .
      show ?thesis
      proof (cases c)
        case (ObjectCell ps frozen)
        with cb have "\<forall>p \<in> set ps. below N (snd p)"
          by (simp add: cell_below_def list_all_iff)
        then have "map (\<lambda>p. (fst p, read_tree n (h(N := x)) (snd p))) ps
            = map (\<lambda>p. (fst p, read_tree n h (snd p))) ps"
          by (intro map_cong refl) (simp only: IH)
        then show ?thesis
          by (simp only: HRef read_tree.simps upd Some ObjectCell option.case cell.case)
      next
        case (ArrayCell xs frozen)
        with cb have "\<forall>y \<in> set xs. below N y"
          by (simp add: cell_below_def list_all_iff)
        then have "map (read_tree n (h(N := x))) xs = map (read_tree n h) xs"
          by (intro map_cong refl) (simp only: IH)
        then show ?thesis
          by (simp only: HRef read_tree.simps upd Some ArrayCell option.case cell.case)
      qed
    qed
  qed simp_all
qed

lemma closed_storeD:
  assumes "closed_store st"
  shows "below (lim st) (state_var st)"
    and "a < lim st \<Longrightarrow> cells st a = Some c \<Longrightarrow> cell_below (lim st) c"
  using assms by (auto simp: closed_store_def list_all_iff split: option.splits)

lemma observe_fresh:
  assumes "closed_store st"
  shows "read_tree n ((cells st)(lim st := x)) (state_var st) = observe n st"
  unfolding observe_def
  by (rule read_tree_fresh) (use closed_storeD [OF assms] in auto)

lemma observe_alloc_overwrite:
  assumes "closed_store st" and "alloc c0 st = (a, st1)"
  shows "a = lim st" and "observe n st1 = observe n st"
    and "observe n (overwrite a c st1) = observe n st"
proof -
  from assms(2) have a: "a = lim st"
    and st1: "st1 = st\<lparr>cells := (cells st)(lim st \<mapsto> c0), lim := Suc (lim st)\<rparr>"
    by (auto simp: alloc_def)
  show "a = lim st" by (rule a)
  show "observe n st1 = observe n st"
    using observe_fresh [OF assms(1), of n "Some c0"] by (simp add: st1 observe_def)
  have "observe n (overwrite a c st1) = observe n st1
      \<or> observe n (overwrite a c st1) = read_tree n ((cells st)(lim st := Some c)) (state_var st)"
    by (cases c0) (auto simp: overwrite_def a st1 observe_def)
  then show "observe n (overwrite a c st1) = observe n st"
    using observe_fresh [OF assms(1), of n "Some c"] \<open>observe n st1 = observe n st\<close> by auto
qed

section \<open>The claims\<close>

text \<open>
  C1 (amended).  The structural validation of the storage service does not follow the
  specification's policy word for word.  It accepts every state that meets the policy and
  carries a \<^verbatim>\<open>lastSynced\<close> property (\<^verbatim>\<open>null\<close> or a positive integer); and whatever it accepts
  is an object whose \<^verbatim>\<open>tasks\<close> is an array of objects with a string id, a string title, a
  boolean completion flag and a numeric creation time, whose filter is one of the three
  recognised values, and whose \<^verbatim>\<open>lastSynced\<close> is \<^verbatim>\<open>null\<close> or a number.
\<close>

theorem isValidState_bounds:
  "(spec_valid_state st \<and> getprop st ''lastSynced'' \<noteq> JUndefined \<longrightarrow> isValidState st)
   \<and> (isValidState st \<longrightarrow>
        (\<exists>ps ts. st = JObj ps \<and> lookup ps ''tasks'' = JArr ts
           \<and> (\<forall>t \<in> set ts. \<exists>qs i ttl c n. t = JObj qs \<and> lookup qs ''id'' = JStr i
                  \<and> lookup qs ''title'' = JStr ttl \<and> lookup qs ''completed'' = JBool c
                  \<and> lookup qs ''createdAt'' = JNum n)
           \<and> lookup ps ''filter'' \<in> {JStr ''all'', JStr ''active'', JStr ''completed''}
           \<and> (lookup ps ''lastSynced'' = JNull \<or> (\<exists>n. lookup ps ''lastSynced'' = JNum n))))"
proof (intro conjI impI)
  assume a: "spec_valid_state st \<and> getprop st ''lastSynced'' \<noteq> JUndefined"
  then obtain ps where st: "st = JObj ps"
    by (cases st) (simp_all add: spec_valid_state_def)
  from a obtain ts where ts: "lookup ps ''tasks'' = JArr ts" and inv: "list_all task_invariants ts"
    by (cases "lookup ps ''tasks''") (simp_all add: spec_valid_state_def st)
  from inv have "list_all isValidTask ts"
    by (simp add: list_all_iff task_invariants_valid)
  moreover from a have "lookup ps ''lastSynced'' = JNull \<or> (\<exists>n. lookup ps ''lastSynced'' = JNum n)"
    by (auto simp: spec_valid_state_def st positive_integer_def split: jsval.splits jsnum.splits)
  moreover from a have "lookup ps ''filter'' = JStr ''all'' \<or> lookup ps ''filter'' = JStr ''active''
      \<or> lookup ps ''filter'' = JStr ''completed''"
    by (cases "lookup ps ''filter''") (simp_all add: spec_valid_state_def st)
  ultimately show "isValidState st"
    by (simp add: isValidState_iff st ts)
next
  assume "isValidState st"
  then show "\<exists>ps ts. st = JObj ps \<and> lookup ps ''tasks'' = JArr ts
           \<and> (\<forall>t \<in> set ts. \<exists>qs i ttl c n. t = JObj qs \<and> lookup qs ''id'' = JStr i
                  \<and> lookup qs ''title'' = JStr ttl \<and> lookup qs ''completed'' = JBool c
                  \<and> lookup qs ''createdAt'' = JNum n)
           \<and> lookup ps ''filter'' \<in> {JStr ''all'', JStr ''active'', JStr ''completed''}
           \<and> (lookup ps ''lastSynced'' = JNull \<or> (\<exists>n. lookup ps ''lastSynced'' = JNum n))"
    by (auto simp: isValidState_iff list_all_iff isValidTask_iff)
qed

theorem isValidState_bounds_witness:
  "spec_valid_state
     (JObj [(''tasks'', JArr [JObj [(''id'', JStr ''task-1-a''), (''title'', JStr ''Buy milk''),
                                    (''completed'', JBool False), (''createdAt'', JNum (Finite 1))]]),
            (''filter'', JStr ''all''), (''lastSynced'', JNull)])
   \<and> isValidState
     (JObj [(''tasks'', JArr [JObj [(''id'', JStr ''task-1-a''), (''title'', JStr ''Buy milk''),
                                    (''completed'', JBool False), (''createdAt'', JNum (Finite 1))]]),
            (''filter'', JStr ''all''), (''lastSynced'', JNull)])
   \<and> lookup [(''tasks'', JArr [JObj [(''id'', JStr ''task-1-a''), (''title'', JStr ''Buy milk''),
                                    (''completed'', JBool False), (''createdAt'', JNum (Finite 1))]]),
            (''filter'', JStr ''all''), (''lastSynced'', JNull)] ''lastSynced'' = JNull"
  using isValidState_bounds
    [of "JObj [(''tasks'', JArr [JObj [(''id'', JStr ''task-1-a''), (''title'', JStr ''Buy milk''),
                                    (''completed'', JBool False), (''createdAt'', JNum (Finite 1))]]),
            (''filter'', JStr ''all''), (''lastSynced'', JNull)]"]
  by (simp add: spec_valid_state_def task_invariants_def positive_integer_def trim_def is_space_def)

text \<open>
  C1 as stated fails: a state without a \<^verbatim>\<open>lastSynced\<close> property meets the specification's
  policy and is rejected by the code.
\<close>

theorem isValidState_absent_lastSynced_counterexample:
  "spec_valid_state (JObj [(''tasks'', JArr []), (''filter'', JStr ''all'')])
   \<and> \<not> isValidState (JObj [(''tasks'', JArr []), (''filter'', JStr ''all'')])"
  by (simp add: spec_valid_state_def isValidState_def)

text \<open>
  C2.  \<^verbatim>\<open>setFilter\<close> replaces the filter and notifies the subscribers, but it never asks the
  storage service to save: the stored slot is what it was before the call.  At the state
  loaded from an empty store, \<^verbatim>\<open>setFilter("active")\<close> notifies the subscriber and leaves
  the slot empty, where the save that the other mutating operations make would have written
  the new state.
\<close>

theorem setFilter_does_not_persist:
  "slot (snd (setFilter f w)) = slot w
   \<and> (let w' = snd (setFilter (JStr ''active'') (subscribe 0 (init (boot None))))
      in getprop (state w') ''filter'' = JStr ''active''
         \<and> events w' = [Notified 0 (state w'), Dispatched ''filter:changed'' (FilterDetail (JStr ''active''))]
         \<and> slot w' = None
         \<and> slot (persistState w') = Some (ser (state w')))"
proof
  show "slot (snd (setFilter f w)) = slot w"
    by (simp add: setFilter_def notifySubscribers_def emit_def Let_def)
next
  show "let w' = snd (setFilter (JStr ''active'') (subscribe 0 (init (boot None))))
      in getprop (state w') ''filter'' = JStr ''active''
         \<and> events w' = [Notified 0 (state w'), Dispatched ''filter:changed'' (FilterDetail (JStr ''active''))]
         \<and> slot w' = None
         \<and> slot (persistState w') = Some (ser (state w'))"
    by (simp add: init_boot_None setFilter_def validateFilter_def subscribe_def notifySubscribers_def
        emit_def getState_def persistState_def save_def save_try_def setItem_def isValidState_def
        JSON_stringify_def Let_def)
qed

text \<open>
  C3.  A mutating operation writes the clock into \<^verbatim>\<open>lastSynced\<close> before it saves and
  whatever the save returns.  With a store whose writes fail for lack of space,
  \<^verbatim>\<open>addTask("Buy milk")\<close> on the freshly loaded state leaves nothing stored and a save
  that failed, yet \<^verbatim>\<open>lastSynced\<close> has gone from \<^verbatim>\<open>null\<close> to the time of the call.
\<close>

theorem addTask_failed_save_sets_lastSynced:
  "let w = (init (boot None))\<lparr>setItem_fault := Some QuotaExceededError\<rparr>;
       w' = snd (addTask (JStr ''Buy milk'') 1700000000000 ''k3j9x2'' 1700000000000 1700000000001 w)
   in getprop (state w) ''lastSynced'' = JNull
      \<and> fst (save (state w') w') = False
      \<and> slot w' = None
      \<and> ConsoleWarn ''Failed to persist state to LocalStorage'' \<in> set (events w')
      \<and> getprop (state w') ''lastSynced'' = JNum (Finite 1700000000001)"
  by (simp add: init_boot_None addTask_def validateTaskTitle_def trim_def is_space_def
      MIN_TITLE_LENGTH_def MAX_TITLE_LENGTH_def isValidState_def isValidTask_def Let_def
      notifySubscribers_def emit_def getState_def persistState_def save_def save_try_def
      setItem_def handleStorageError_def stamp_def)

text \<open>
  C4 (amended).  Ids that are unique stay unique under \<^verbatim>\<open>toggleTaskCompleted\<close>, \<^verbatim>\<open>deleteTask\<close>
  and \<^verbatim>\<open>setFilter\<close>, and under \<^verbatim>\<open>addTask\<close> whenever the generated id is not the id of a task
  already in the list.
\<close>

theorem unique_ids_preserved:
  assumes "unique_ids (state w)"
  shows "unique_ids (state (snd (toggleTaskCompleted taskId now w)))
     \<and> unique_ids (state (snd (deleteTask taskId now w)))
     \<and> unique_ids (state (snd (setFilter f w)))
     \<and> (JStr (generateUniqueId idTime randomSuffix)
           \<notin> set (map (\<lambda>task. getprop task ''id'') (elems (getprop (state w) ''tasks'')))
         \<longrightarrow> unique_ids (state (snd (addTask title idTime randomSuffix createdTime syncTime w))))"
proof -
  from assms obtain ps where st: "state w = JObj ps"
    using unique_ids_JObj by blast
  from assms obtain ts where ts: "lookup ps ''tasks'' = JArr ts"
    and dist: "distinct (map (\<lambda>task. getprop task ''id'') ts)"
    by (auto simp: unique_ids_def st split: jsval.splits)
  have arr: "tasks_array (state w) = Inr ts"
    by (simp add: tasks_array_def st ts)
  have arr2: "tasks_array (JObj ps) = Inr ts"
    using arr by (simp add: st)
  have toggle: "unique_ids (state (snd (toggleTaskCompleted taskId now w)))"
  proof (cases "findIndex ts taskId")
    case (Inl e)
    then show ?thesis using assms by (simp add: toggleTaskCompleted_def arr)
  next
    case (Inr r)
    show ?thesis
    proof (cases r)
      case None
      then show ?thesis using assms Inr by (simp add: toggleTaskCompleted_def arr)
    next
      case (Some i)
      with Inr findIndex_Some [of ts taskId i]
      have i: "i < length ts" and idi: "getprop (ts ! i) ''id'' = JStr taskId" by auto
      from idi obtain qs where qs: "ts ! i = JObj qs" using getprop_id_JObj by blast
      let ?u = "JObj (set_prop qs ''completed'' (JBool (\<not> truthy (lookup qs ''completed''))))"
      have "map (\<lambda>task. getprop task ''id'') (ts[i := ?u])
          = (map (\<lambda>task. getprop task ''id'') ts)[i := getprop (ts ! i) ''id'']"
        by (simp add: map_update qs)
      also have "\<dots> = map (\<lambda>task. getprop task ''id'') ts"
        using i by (metis list_update_id nth_map)
      finally have "distinct (map (\<lambda>task. getprop task ''id'') (ts[i := ?u]))"
        using dist by simp
      then show ?thesis
        using Inr Some
        by (simp add: toggleTaskCompleted_def arr2 Let_def stamp_def st qs unique_ids_def)
    qed
  qed
  have delete: "unique_ids (state (snd (deleteTask taskId now w)))"
  proof (cases "findIndex ts taskId")
    case (Inl e)
    then show ?thesis using assms by (simp add: deleteTask_def arr)
  next
    case (Inr r)
    show ?thesis
    proof (cases r)
      case None
      then show ?thesis using assms Inr by (simp add: deleteTask_def arr)
    next
      case (Some i)
      show ?thesis
      proof (cases "filter_tasks (\<lambda>task. map_sum id (\<lambda>i. i \<noteq> JStr taskId) (get task ''id'')) ts")
        case (Inl e)
        then show ?thesis using assms Inr Some by (simp add: deleteTask_def arr)
      next
        case kept: (Inr kept)
        from filter_tasks_Inr [OF kept]
        have "distinct (map (\<lambda>task. getprop task ''id'') kept)"
          using dist by (simp add: distinct_map_filter)
        then show ?thesis
          using Inr Some kept
          by (simp add: deleteTask_def arr2 Let_def stamp_def st unique_ids_def)
      qed
    qed
  qed
  have setf: "unique_ids (state (snd (setFilter f w)))"
    using assms by (simp add: setFilter_def Let_def st ts unique_ids_def)
  have add: "unique_ids (state (snd (addTask title idTime randomSuffix createdTime syncTime w)))"
    if fresh: "JStr (generateUniqueId idTime randomSuffix)
           \<notin> set (map (\<lambda>task. getprop task ''id'') (elems (getprop (state w) ''tasks'')))"
  proof (cases "validateTaskTitle title")
    case (Pair isValid message)
    show ?thesis
    proof (cases isValid)
      case False
      then show ?thesis using assms Pair by (simp add: addTask_def)
    next
      case True
      then show ?thesis
        using fresh dist Pair
        by (simp add: addTask_def Let_def stamp_def st ts unique_ids_def)
    qed
  qed
  from toggle delete setf add show ?thesis by blast
qed

theorem unique_ids_preserved_witness:
  "(let w = (boot None)\<lparr>state :=
        JObj [(''tasks'', JArr [JObj [(''id'', JStr ''a''), (''title'', JStr ''A''),
                                      (''completed'', JBool True), (''createdAt'', JNum (Finite 1))],
                                JObj [(''id'', JStr ''b''), (''title'', JStr ''B''),
                                      (''completed'', JBool False), (''createdAt'', JNum (Finite 2))]]),
              (''filter'', JStr ''all''), (''lastSynced'', JNull)]\<rparr>
    in unique_ids (state w)
       \<and> unique_ids (state (snd (toggleTaskCompleted ''a'' 5 w)))
       \<and> unique_ids (state (snd (deleteTask ''a'' 5 w)))
       \<and> unique_ids (state (snd (setFilter (JStr ''active'') w)))
       \<and> unique_ids (state (snd (addTask (JStr ''C'') 7 ''r'' 7 7 w))))"
  using unique_ids_preserved
    [of "(boot None)\<lparr>state :=
        JObj [(''tasks'', JArr [JObj [(''id'', JStr ''a''), (''title'', JStr ''A''),
                                      (''completed'', JBool True), (''createdAt'', JNum (Finite 1))],
                                JObj [(''id'', JStr ''b''), (''title'', JStr ''B''),
                                      (''completed'', JBool False), (''createdAt'', JNum (Finite 2))]]),
              (''filter'', JStr ''all''), (''lastSynced'', JNull)]\<rparr>"
        "''a''" 5 "JStr ''active''" 7 "''r''" "JStr ''C''" 7 7]
  by (simp add: boot_def unique_ids_def generateUniqueId_def Let_def)

text \<open>
  C4 as stated fails: a stored text with two tasks of the same id parses, passes the
  validation of \<^verbatim>\<open>load\<close> and is installed by \<^verbatim>\<open>init\<close> as the state.
\<close>

theorem init_duplicate_ids_counterexample:
  \<open>let payload = ''{"tasks":[{"id":"a","title":"x","completed":false,"createdAt":1},{"id":"a","title":"y","completed":true,"createdAt":2}],"filter":"all","lastSynced":null}'';
       s = JObj [(''tasks'', JArr [JObj [(''id'', JStr ''a''), (''title'', JStr ''x''),
                                         (''completed'', JBool False), (''createdAt'', JNum (Finite 1))],
                                   JObj [(''id'', JStr ''a''), (''title'', JStr ''y''),
                                         (''completed'', JBool True), (''createdAt'', JNum (Finite 2))]]),
                 (''filter'', JStr ''all''), (''lastSynced'', JNull)]
   in JSON_parse payload = Inr s \<and> isValidState s
      \<and> state (init (boot (Some payload))) = s \<and> \<not> unique_ids s\<close>
  by code_simp

text \<open>
  C5 (amended).  In a closed store, the object that \<^verbatim>\<open>getState\<close> returns is new and frozen:
  no attempt to change it has any effect, and the module's state reads as before.  Under
  the filters \<^verbatim>\<open>active\<close> and \<^verbatim>\<open>completed\<close>, what \<^verbatim>\<open>getFilteredTasks\<close> returns is a new array:
  whatever is done to that array, the module's state reads as before.
\<close>

theorem read_results_top_level:
  assumes "closed_store st"
  shows "(case getState_s st of
            (r, st1) \<Rightarrow> r = HRef (lim st)
              \<and> (\<forall>c. overwrite (lim st) c st1 = st1)
              \<and> (\<forall>n. observe n st1 = observe n st))
       \<and> (hprop st (state_var st) ''filter'' = HStr ''active''
            \<or> hprop st (state_var st) ''filter'' = HStr ''completed''
          \<longrightarrow> (case getFilteredTasks_s st of
                 (Inl e, st1) \<Rightarrow> st1 = st
               | (Inr r, st1) \<Rightarrow> r = HRef (lim st)
                   \<and> (\<forall>c n. observe n (overwrite (lim st) c st1) = observe n st)))"
proof (intro conjI impI)
  obtain a st1 where al: "alloc (ObjectCell (own_props st (state_var st)) True) st = (a, st1)"
    by (cases "alloc (ObjectCell (own_props st (state_var st)) True) st")
  have frozen: "overwrite (lim st) c st1 = st1" for c
    using al by (auto simp: alloc_def overwrite_def)
  show "case getState_s st of
            (r, st1) \<Rightarrow> r = HRef (lim st)
              \<and> (\<forall>c. overwrite (lim st) c st1 = st1)
              \<and> (\<forall>n. observe n st1 = observe n st)"
    using observe_alloc_overwrite(1,2) [OF assms al] frozen
    by (simp add: getState_s_def al)
next
  assume flt: "hprop st (state_var st) ''filter'' = HStr ''active''
            \<or> hprop st (state_var st) ''filter'' = HStr ''completed''"
  have fresh: "a = lim st \<and> (\<forall>c n. observe n (overwrite (lim st) c st1) = observe n st)"
    if "alloc (ArrayCell kept False) st = (a, st1)" for kept a st1
    using observe_alloc_overwrite(1,3) [OF assms that] by simp
  show "case getFilteredTasks_s st of
          (Inl e, st1) \<Rightarrow> st1 = st
        | (Inr r, st1) \<Rightarrow> r = HRef (lim st)
            \<and> (\<forall>c n. observe n (overwrite (lim st) c st1) = observe n st)"
    using flt
    by (auto simp: getFilteredTasks_s_def Let_def split: sum.splits prod.splits dest!: fresh)
qed

theorem read_results_top_level_witness:
  "closed_store (example_store ''active'')
   \<and> (case getState_s (example_store ''active'') of
        (r, st1) \<Rightarrow> r = HRef 3 \<and> (\<forall>c. overwrite 3 c st1 = st1)
          \<and> (\<forall>n. observe n st1 = observe n (example_store ''active'')))
   \<and> (case getFilteredTasks_s (example_store ''active'') of
         (Inl e, st1) \<Rightarrow> st1 = example_store ''active''
       | (Inr r, st1) \<Rightarrow> r = HRef 3
           \<and> (\<forall>c n. observe n (overwrite 3 c st1) = observe n (example_store ''active'')))"
proof -
  have c: "closed_store (example_store ''active'')"
    by (simp add: closed_store_def example_store_def below_def cell_below_def upt_rec)
  have l: "lim (example_store ''active'') = 3"
    and f: "hprop (example_store ''active'') (state_var (example_store ''active'')) ''filter''
              = HStr ''active''"
    by (simp_all add: example_store_def hprop_def)
  show ?thesis
    using read_results_top_level [OF c, unfolded l f] c by simp
qed

text \<open>
  C5 as stated fails.  Under the filter \<^verbatim>\<open>all\<close>, \<^verbatim>\<open>getFilteredTasks\<close> returns the array of the
  state itself (address 1): pushing an element onto the returned array changes what the
  module's state reads as.  The object that \<^verbatim>\<open>getState\<close> returns holds that same array
  as its \<^verbatim>\<open>tasks\<close>, and in it the task object of the state (address 2): setting the task's
  \<^verbatim>\<open>completed\<close> through the returned value changes the state too.
\<close>

theorem shared_tasks_counterexample:
  "(case getFilteredTasks_s (example_store ''all'') of
      (r, st1) \<Rightarrow> r = Inr (HRef 1)
        \<and> hprop (example_store ''all'') (state_var (example_store ''all'')) ''tasks'' = HRef 1
        \<and> observe 4 (overwrite 1 (ArrayCell [HRef 2, HStr ''x''] False) st1) \<noteq> observe 4 st1)
   \<and> (case getState_s (example_store ''all'') of
        (r, st1) \<Rightarrow> hprop st1 r ''tasks'' = HRef 1
          \<and> hprop st1 (HRef 1) ''0'' = HRef 2
          \<and> observe 4 (overwrite 2 (ObjectCell [(''id'', HStr ''a''), (''title'', HStr ''A''),
                                      (''completed'', HBool True), (''createdAt'', HNum (Finite 1))] False) st1)
              \<noteq> observe 4 st1)"
  by code_simp

text \<open>
  C6 (amended).  For every state that passes the storage service's validation and is made
  of values a JSON text can denote (no \<^verbatim>\<open>undefined\<close>, \<^verbatim>\<open>NaN\<close> or infinity anywhere in it), in a
  world whose store can be written and read, \<^verbatim>\<open>save\<close> returns true and the \<^verbatim>\<open>load\<close> that
  follows returns that very state.
\<close>

theorem save_load_round_trip:
  assumes "isValidState s" and "json_safe s"
    and "setItem_fault w = None" and "getItem_fault w = None"
  shows "fst (save s w) = True \<and> fst (load (snd (save s w))) = s"
proof -
  from assms(1) have "s \<noteq> JUndefined"
    by (auto simp: isValidState_iff)
  then have sv: "save s w = (True, w\<lparr>slot := Some (ser s)\<rparr>)"
    using assms(1,3) by (simp add: save_def save_try_def setItem_def JSON_stringify_def)
  have "load (w\<lparr>slot := Some (ser s)\<rparr>) = (s, w\<lparr>slot := Some (ser s)\<rparr>)"
    using assms(1,4) JSON_parse_ser [OF assms(2)]
    by (simp add: load_def load_with_def load_try_def getItem_def)
  with sv show ?thesis by simp
qed

theorem save_load_round_trip_witness:
  "(let s = JObj [(''tasks'', JArr [JObj [(''id'', JStr ''task-1-a''), (''title'', JStr ''Buy milk''),
                                          (''completed'', JBool False), (''createdAt'', JNum (Finite 1))]]),
                  (''filter'', JStr ''all''), (''lastSynced'', JNum (Finite 2))]
    in isValidState s \<and> json_safe s \<and> fst (save s (boot None)) = True
       \<and> fst (load (snd (save s (boot None)))) = s)"
  using save_load_round_trip
    [of "JObj [(''tasks'', JArr [JObj [(''id'', JStr ''task-1-a''), (''title'', JStr ''Buy milk''),
                                          (''completed'', JBool False), (''createdAt'', JNum (Finite 1))]]),
                  (''filter'', JStr ''all''), (''lastSynced'', JNum (Finite 2))]" "boot None"]
  by (simp add: boot_def isValidState_def isValidTask_def Let_def)

text \<open>
  C6 as stated fails.  The validation does not look at properties it does not know and
  tests numbers with \<^verbatim>\<open>typeof\<close> only, so a state that holds \<^verbatim>\<open>NaN\<close>, in an extra property or as
  \<^verbatim>\<open>lastSynced\<close>, passes it and is saved; but \<^verbatim>\<open>NaN\<close> is written as \<^verbatim>\<open>null\<close>, and \<^verbatim>\<open>load\<close> returns
  a state with \<^verbatim>\<open>null\<close> in that place.
\<close>

theorem save_load_NaN_counterexample:
  "(let s = JObj [(''tasks'', JArr []), (''filter'', JStr ''all''), (''lastSynced'', JNull),
                  (''note'', JNum NaN)];
        w = snd (save s (boot None))
    in isValidState s \<and> fst (save s (boot None)) = True
       \<and> fst (load w) = JObj [(''tasks'', JArr []), (''filter'', JStr ''all''),
                               (''lastSynced'', JNull), (''note'', JNull)]
       \<and> fst (load w) \<noteq> s)
   \<and> (let s = JObj [(''tasks'', JArr []), (''filter'', JStr ''all''), (''lastSynced'', JNum NaN)];
           w = snd (save s (boot None))
       in isValidState s \<and> fst (save s (boot None)) = True
          \<and> fst (load w) = JObj [(''tasks'', JArr []), (''filter'', JStr ''all''),
                                  (''lastSynced'', JNull)]
          \<and> fst (load w) \<noteq> s)"
  by code_simp

text \<open>
  C7.  \<^verbatim>\<open>load\<close> returns a value in every world (an exception inside it is caught), and the
  value is the default empty state whenever the store cannot be read, the slot is absent,
  the stored text does not parse, or the parsed value fails validation.  This holds for
  every parser in the place of \<^verbatim>\<open>JSON.parse\<close>.
\<close>

theorem load_default_on_failure:
  assumes "getItem_fault w \<noteq> None \<or> slot w = None
     \<or> (\<exists>txt. slot w = Some txt
          \<and> ((\<exists>e. parse txt = Inl e) \<or> (\<exists>v. parse txt = Inr v \<and> \<not> isValidState v)))"
  shows "fst (load_with parse w)
           = JObj [(''tasks'', JArr []), (''filter'', JStr ''all''), (''lastSynced'', JNull)]"
  using assms
  by (auto simp: load_with_def load_try_def getItem_def getDefaultState_def
      split: option.splits sum.splits)

text \<open>With the stored text \<^verbatim>\<open>not json\<close>, which the parser rejects, \<^verbatim>\<open>load\<close> returns the default state.\<close>

theorem load_default_on_failure_witness:
  "JSON_parse ''not json'' = Inl SyntaxError
   \<and> fst (load (boot (Some ''not json'')))
       = JObj [(''tasks'', JArr []), (''filter'', JStr ''all''), (''lastSynced'', JNull)]"
proof -
  have p: "JSON_parse ''not json'' = Inl SyntaxError"
    by code_simp
  show ?thesis
    using load_default_on_failure [of "boot (Some ''not json'')" JSON_parse] p
    by (simp add: boot_def load_def)
qed

text \<open>
  C8.  For a title that is empty, made of white space only, or longer than 100 characters
  after trimming, \<^verbatim>\<open>addTask\<close> throws a validation error and leaves the whole world as it
  was: the state (tasks, filter, \<^verbatim>\<open>lastSynced\<close>), the stored slot and the emitted effects.
\<close>

theorem addTask_rejects_invalid_title:
  assumes "s = [] \<or> list_all is_space s \<or> 100 < length (trim s)"
  shows "addTask (JStr s) idTime randomSuffix createdTime syncTime w
           = (Inl (Error (if trim s = [] then ''Task cannot be empty''
                          else ''Task title must be 100 characters or less'')), w)"
proof -
  from assms have "trim s = [] \<or> 100 < length (trim s)"
    using trim_all_space [of s] by (auto simp: trim_def)
  then have "validateTaskTitle (JStr s)
      = (False, if trim s = [] then ''Task cannot be empty''
                else ''Task title must be 100 characters or less'')"
    by (auto simp: validateTaskTitle_def MIN_TITLE_LENGTH_def MAX_TITLE_LENGTH_def Let_def)
  then show ?thesis
    by (simp add: addTask_def)
qed

theorem addTask_rejects_invalid_title_witness:
  "addTask (JStr ''   '') 1 ''x'' 2 3 (boot None) = (Inl (Error ''Task cannot be empty''), boot None)"
  using addTask_rejects_invalid_title [of "''   ''" 1 "''x''" 2 3 "boot None"]
  by (simp add: is_space_def trim_def)

text \<open>
  C9.  In a state that passes validation, \<^verbatim>\<open>getFilteredTasks\<close> returns the tasks with
  \<^verbatim>\<open>completed\<close> false under the filter \<^verbatim>\<open>active\<close>, the tasks with \<^verbatim>\<open>completed\<close> true under
  \<^verbatim>\<open>completed\<close>, and all tasks under \<^verbatim>\<open>all\<close>, each time in the order of the state's list.
\<close>

theorem getFilteredTasks_subsequence:
  assumes "isValidState (state w)"
  shows "getFilteredTasks w = Inr (JArr
     (if getprop (state w) ''filter'' = JStr ''active''
        then filter (\<lambda>task. getprop task ''completed'' = JBool False) (elems (getprop (state w) ''tasks''))
      else if getprop (state w) ''filter'' = JStr ''completed''
        then filter (\<lambda>task. getprop task ''completed'' = JBool True) (elems (getprop (state w) ''tasks''))
      else elems (getprop (state w) ''tasks'')))"
proof -
  from assms obtain ps ts where st: "state w = JObj ps" and ts: "lookup ps ''tasks'' = JArr ts"
    and valid: "list_all isValidTask ts"
    by (auto simp: isValidState_iff)
  have act: "filter_tasks (\<lambda>task. map_sum id (\<lambda>c. \<not> truthy c) (get task ''completed'')) ts
      = Inr (filter (\<lambda>task. getprop task ''completed'' = JBool False) ts)"
    by (rule filter_tasks_total) (use valid in \<open>auto simp: list_all_iff isValidTask_iff\<close>)
  have com: "filter_tasks (\<lambda>task. map_sum id truthy (get task ''completed'')) ts
      = Inr (filter (\<lambda>task. getprop task ''completed'' = JBool True) ts)"
    by (rule filter_tasks_total) (use valid in \<open>auto simp: list_all_iff isValidTask_iff\<close>)
  show ?thesis
    by (simp add: getFilteredTasks_def tasks_array_def st ts act com Let_def)
qed

theorem getFilteredTasks_subsequence_witness:
  "getFilteredTasks
     ((boot None)\<lparr>state :=
        JObj [(''tasks'', JArr [JObj [(''id'', JStr ''a''), (''title'', JStr ''A''),
                                      (''completed'', JBool True), (''createdAt'', JNum (Finite 1))],
                                JObj [(''id'', JStr ''b''), (''title'', JStr ''B''),
                                      (''completed'', JBool False), (''createdAt'', JNum (Finite 2))]]),
              (''filter'', JStr ''active''), (''lastSynced'', JNull)]\<rparr>)
   = Inr (JArr [JObj [(''id'', JStr ''b''), (''title'', JStr ''B''),
                      (''completed'', JBool False), (''createdAt'', JNum (Finite 2))]])"
  using getFilteredTasks_subsequence
    [of "(boot None)\<lparr>state :=
        JObj [(''tasks'', JArr [JObj [(''id'', JStr ''a''), (''title'', JStr ''A''),
                                      (''completed'', JBool True), (''createdAt'', JNum (Finite 1))],
                                JObj [(''id'', JStr ''b''), (''title'', JStr ''B''),
                                      (''completed'', JBool False), (''createdAt'', JNum (Finite 2))]]),
              (''filter'', JStr ''active''), (''lastSynced'', JNull)]\<rparr>"]
  by (simp add: boot_def isValidState_def isValidTask_def)

text \<open>
  C10.  \<^verbatim>\<open>setState\<close> and \<^verbatim>\<open>updateState\<close> install what they are given without validating it.
  After \<^verbatim>\<open>setState\<close> with the filter \<^verbatim>\<open>bogus\<close> the state's filter is not a recognised one, the
  subscriber has been called with that state, and the save was attempted and refused.
  After \<^verbatim>\<open>updateState\<close> with two tasks that share the id \<^verbatim>\<open>a\<close> and have an empty title the
  state has a duplicate id and an empty title, the subscriber has been called with that
  state, and the state has been written to the store.
\<close>

theorem setState_updateState_unvalidated:
  "(let w = setState (JObj [(''tasks'', JArr []), (''filter'', JStr ''bogus'')]) 5
              (subscribe 0 (init (boot None)))
    in \<not> validateFilter (getprop (state w) ''filter'')
       \<and> events w = [Notified 0 (state w),
                      ConsoleError ''Attempted to save invalid state'',
                      ConsoleWarn ''Failed to persist state to LocalStorage''])
   \<and> (let t = JObj [(''id'', JStr ''a''), (''title'', JStr []), (''completed'', JBool False),
                     (''createdAt'', JNum (Finite 1))];
           w = updateState (JObj [(''tasks'', JArr [t, t])]) 7 (subscribe 0 (init (boot None)))
       in \<not> unique_ids (state w)
          \<and> \<not> list_all task_invariants (elems (getprop (state w) ''tasks''))
          \<and> events w = [Notified 0 (state w)]
          \<and> slot w = Some (ser (state w)))"
proof
  show "let w = setState (JObj [(''tasks'', JArr []), (''filter'', JStr ''bogus'')]) 5
              (subscribe 0 (init (boot None)))
    in \<not> validateFilter (getprop (state w) ''filter'')
       \<and> events w = [Notified 0 (state w),
                      ConsoleError ''Attempted to save invalid state'',
                      ConsoleWarn ''Failed to persist state to LocalStorage'']"
    by (simp add: init_boot_None setState_def validateFilter_def subscribe_def notifySubscribers_def
        emit_def getState_def persistState_def save_def save_try_def isValidState_def stamp_def Let_def)
next
  show "let t = JObj [(''id'', JStr ''a''), (''title'', JStr []), (''completed'', JBool False),
                     (''createdAt'', JNum (Finite 1))];
           w = updateState (JObj [(''tasks'', JArr [t, t])]) 7 (subscribe 0 (init (boot None)))
       in \<not> unique_ids (state w)
          \<and> \<not> list_all task_invariants (elems (getprop (state w) ''tasks''))
          \<and> events w = [Notified 0 (state w)]
          \<and> slot w = Some (ser (state w))"
    by (simp add: init_boot_None updateState_def subscribe_def notifySubscribers_def
        emit_def getState_def persistState_def save_def save_try_def setItem_def isValidState_def
        isValidTask_def stamp_def JSON_stringify_def unique_ids_def
        task_invariants_def trim_def Let_def)
qed

end
